theory Spec2Isabelle
  imports Main "HOL-Library.Word" "HOL-Library.Sublist" "HOL-Library.AList"
begin

section \<open>Bytes, the boundary marker and the trailer codec (main.go)\<close>

type_synonym byte = "8 word"

text \<open>
  \<^verbatim>\<open>generateBoundary\<close> returns the SHA-512 digest of the ASCII string "boundary". The digest
  function belongs to the standard library; the 64 bytes it yields for this fixed input are
  recorded here as the constant they are.
\<close>

definition generateBoundary :: "byte list" where
  "generateBoundary =
     [41, 160, 46, 217, 231, 216, 35, 82, 88, 42, 149, 208, 71, 204, 37, 17,
      19, 19, 13, 55, 105, 41, 246, 188, 112, 147, 122, 132, 196, 153, 58, 153,
      82, 117, 5, 245, 36, 223, 118, 108, 52, 93, 165, 9, 52, 0, 217, 90,
      249, 109, 74, 86, 50, 225, 64, 102, 38, 15, 18, 169, 122, 166, 122, 67]"

definition keyLength :: nat where
  "keyLength = 16"

text \<open>
  \<^verbatim>\<open>maxBoundaryOffset\<close> carries the comment "the offset at which we stop looking for a boundary,
  it's just a failsafe mechanism against big, corrupted archives". No function of the program
  refers to it.
\<close>

definition maxBoundaryOffset :: nat where
  "maxBoundaryOffset = 100000000"

definition scanBlockSize :: nat where
  "scanBlockSize = 128 * 1024"

text \<open>\<^verbatim>\<open>binary.LittleEndian.Uint64\<close> and \<^verbatim>\<open>PutUint64\<close>, over the numeric value of the bytes.\<close>

fun le_value :: "byte list \<Rightarrow> nat" where
  "le_value [] = 0"
| "le_value (b # bs) = unat b + 256 * le_value bs"

definition LittleEndian_Uint64 :: "byte list \<Rightarrow> 64 word" where
  "LittleEndian_Uint64 bs = word_of_nat (le_value (take 8 bs))"

fun le_bytes :: "nat \<Rightarrow> nat \<Rightarrow> byte list" where
  "le_bytes 0 v = []"
| "le_bytes (Suc k) v = word_of_nat (v mod 256) # le_bytes k (v div 256)"

definition LittleEndian_PutUint64 :: "64 word \<Rightarrow> byte list" where
  "LittleEndian_PutUint64 v = le_bytes 8 (unat v)"

definition sentinelSize :: "64 word" where
  "sentinelSize = 0xdeadbeefdeadbeef"

definition sizePlaceholder :: "byte list" where
  "sizePlaceholder = [0xef, 0xbe, 0xad, 0xde, 0xef, 0xbe, 0xad, 0xde]"

text \<open>\<^verbatim>\<open>bytes.Index(s, sep)\<close>: the first index at which \<open>sep\<close> occurs in \<open>s\<close>; \<open>None\<close> is -1.\<close>

fun bytes_Index :: "byte list \<Rightarrow> byte list \<Rightarrow> nat option" where
  "bytes_Index [] sep = (if sep = [] then Some 0 else None)"
| "bytes_Index (x # xs) sep =
     (if prefix sep (x # xs) then Some 0 else map_option Suc (bytes_Index xs sep))"

section \<open>The executable read as a file\<close>

text \<open>
  \<^verbatim>\<open>openSelf\<close> hands \<^verbatim>\<open>parseSelf\<close> an \<^verbatim>\<open>*os.File\<close> on a regular file. The handle is the file's
  bytes and the current offset. A read at or after end of file returns \<^verbatim>\<open>io.EOF\<close>; any other
  read returns as many bytes as the buffer holds or as are left. \<open>bad\<close> is an optional offset
  from which the device reports an input/output error.
\<close>

record osfile =
  content :: "byte list"
  offset :: nat
  bad :: "nat option"

datatype read_result = Data "byte list" | EOF | IOError

definition file_Read :: "nat \<Rightarrow> osfile \<Rightarrow> read_result \<times> osfile" where
  "file_Read n f =
     (if (case bad f of Some b \<Rightarrow> b \<le> offset f | None \<Rightarrow> False) then (IOError, f)
      else if length (content f) \<le> offset f then (EOF, f)
      else (let d = take n (drop (offset f) (content f))
            in (Data d, f\<lparr>offset := offset f + length d\<rparr>)))"

definition file_Seek :: "nat \<Rightarrow> osfile \<Rightarrow> osfile" where
  "file_Seek off f = f\<lparr>offset := off\<rparr>"

definition openFile :: "byte list \<Rightarrow> osfile" where
  "openFile bs = \<lparr>content = bs, offset = 0, bad = None\<rparr>"

text \<open>
  The outcome of a run: it returns, or it ends in \<^verbatim>\<open>die\<close> (\<^verbatim>\<open>log.Fatalln\<close>, exit status 1) with
  the message given, or it panics.
\<close>

datatype 'a outcome = Ok 'a | Fatal string | Panic string

section \<open>The self-scanner (main.go, parseSelf)\<close>

text \<open>
  The search loop. Its state is the handle and \<^verbatim>\<open>bdyOff\<close>; it leaves with \<^verbatim>\<open>bufFull\<close> set at end
  of file, or with the offset of the marker found in the block just read.
\<close>

function scanLoop :: "osfile \<Rightarrow> nat \<Rightarrow> (bool \<times> nat) outcome \<times> osfile" where
  "scanLoop self bdyOff =
     (case file_Read scanBlockSize self of
        (EOF, self') \<Rightarrow> (Ok (True, bdyOff), self')
      | (IOError, self') \<Rightarrow> (Fatal ''reading itself:'', self')
      | (Data blk, self') \<Rightarrow>
          (case bytes_Index blk generateBoundary of
             Some bOff \<Rightarrow> (Ok (False, bdyOff + bOff), self')
           | None \<Rightarrow> scanLoop self' (bdyOff + scanBlockSize)))"
  by pat_completeness auto
termination
  by (relation "measure (\<lambda>(f, n). length (content f) - offset f)")
     (auto simp: file_Read_def scanBlockSize_def Let_def split: if_splits)

declare scanLoop.simps [simp del]

text \<open>What \<^verbatim>\<open>parseSelf\<close> returns: \<^verbatim>\<open>(nil, nil)\<close>, or the limit of the reader and the key.\<close>

datatype parsed = NoPayload | Payload int "byte list"

definition parseSelf :: "osfile \<Rightarrow> parsed outcome \<times> osfile" where
  "parseSelf self =
     (case scanLoop self 0 of
        (Fatal m, s1) \<Rightarrow> (Fatal m, s1)
      | (Panic m, s1) \<Rightarrow> (Panic m, s1)
      | (Ok (bufFull, bdyOff), s1) \<Rightarrow>
          if bufFull then (Ok NoPayload, s1)
          else
            (case file_Read (keyLength + 8) (file_Seek (bdyOff + length generateBoundary) s1) of
               (Data d, s2) \<Rightarrow>
                 (let buf = d @ replicate (keyLength + 8 - length d) 0;
                      key = take keyLength buf;
                      rawValue = LittleEndian_Uint64 (take 8 (drop keyLength buf))
                  in if rawValue = sentinelSize then (Fatal ''Invalid archive size.'', s2)
                     else (Ok (Payload (sint rawValue) key), s2))
             | (EOF, s2) \<Rightarrow> (Fatal ''failed to read additional data from executable'', s2)
             | (IOError, s2) \<Rightarrow> (Fatal ''failed to read additional data from executable'', s2)))"

text \<open>
  \<^verbatim>\<open>io.LimitReader(self, payloadSize)\<close> read to its end: the bytes from the handle's offset, at most
  \<open>payloadSize\<close> of them, none when the limit is not positive.
\<close>

definition limitReader_bytes :: "osfile \<Rightarrow> int \<Rightarrow> byte list" where
  "limitReader_bytes self n = take (nat n) (drop (offset self) (content self))"

text \<open>
  Files the theorems are tried on: a marker that starts 32 bytes before the end of the first
  block, the same bytes with the marker ending where the block ends, 100 MiB without a marker,
  a marker after 100 MiB, a file whose length field still holds the placeholder, and the
  first file with the placeholder in its length field.
\<close>

definition straddlingExe :: "byte list" where
  "straddlingExe = replicate 131040 0 @ generateBoundary @ replicate 16 7 @ LittleEndian_PutUint64 4 @ [1, 2, 3, 4]"

definition alignedExe :: "byte list" where
  "alignedExe = replicate 131008 0 @ generateBoundary @ replicate 16 7 @ LittleEndian_PutUint64 4 @ [1, 2, 3, 4]"

definition hugeNoMarker :: "byte list" where
  "hugeNoMarker = replicate (800 * scanBlockSize) 0"

definition unpatchedExe :: "byte list" where
  "unpatchedExe = generateBoundary @ replicate 16 7 @ sizePlaceholder @ [1, 2, 3]"

definition lateMarkerExe :: "byte list" where
  "lateMarkerExe = replicate (800 * scanBlockSize) 0 @ generateBoundary @ replicate 16 7 @ LittleEndian_PutUint64 4 @ [1, 2, 3, 4]"

definition unpatchedStraddlingExe :: "byte list" where
  "unpatchedStraddlingExe =
     replicate 131040 0 @ generateBoundary @ replicate 16 7 @ sizePlaceholder @ [1, 2, 3, 4]"


section \<open>Strings and paths\<close>

text \<open>
  Go strings are byte sequences; \<^verbatim>\<open>string(b)\<close> and \<^verbatim>\<open>[]byte(s)\<close> convert without change.
\<close>

definition bytes_of_string :: "string \<Rightarrow> byte list" where
  "bytes_of_string s = map (\<lambda>c. word_of_nat (of_char c)) s"

definition string_of_bytes :: "byte list \<Rightarrow> string" where
  "string_of_bytes bs = map (\<lambda>b. char_of (unat b)) bs"

text \<open>\<^verbatim>\<open>strings.Split(s, sep)\<close> for a separator of one character: never an empty list.\<close>

fun strings_Split :: "char \<Rightarrow> string \<Rightarrow> string list" where
  "strings_Split c [] = [[]]"
| "strings_Split c (x # xs) =
     (if x = c then [] # strings_Split c xs
      else (case strings_Split c xs of
              r # rs \<Rightarrow> (x # r) # rs
            | [] \<Rightarrow> [[x]]))"

text \<open>
  \<^verbatim>\<open>strings.TrimSpace\<close> on the ASCII white space (tab, line feed, vertical tab, form feed,
  carriage return, space).
\<close>

definition isSpace :: "char \<Rightarrow> bool" where
  "isSpace c = (c \<in> set [CHR 0x09, CHR 0x0A, CHR 0x0B, CHR 0x0C, CHR 0x0D, CHR '' ''])"

definition strings_TrimSpace :: "string \<Rightarrow> string" where
  "strings_TrimSpace s = rev (dropWhile isSpace (rev (dropWhile isSpace s)))"

text \<open>\<^verbatim>\<open>hex.EncodeToString\<close>: two lower-case digits for each byte.\<close>

definition hexDigit :: "nat \<Rightarrow> char" where
  "hexDigit n = ''0123456789abcdef'' ! (n mod 16)"

definition hex_EncodeToString :: "byte list \<Rightarrow> string" where
  "hex_EncodeToString bs = concat (map (\<lambda>b. [hexDigit (unat b div 16), hexDigit (unat b)]) bs)"

text \<open>
  A path of the file system is the list of its components from the root. The operating system
  resolves a path string component by component; the model does so lexically (an empty
  component and \<^verbatim>\<open>.\<close> are skipped, \<^verbatim>\<open>..\<close> leaves the last directory, and stays at the root),
  and a relative path is taken from the root. \<^verbatim>\<open>filepath.Join(a, b)\<close> is \<^verbatim>\<open>Clean(a + "/" + b)\<close>;
  the cleaning is lexical too, so the joined string and its cleaned form resolve alike.
\<close>

type_synonym path = "string list"

fun resolve :: "string list \<Rightarrow> path \<Rightarrow> path" where
  "resolve [] st = st"
| "resolve (c # cs) st =
     (if c = [] \<or> c = ''.'' then resolve cs st
      else if c = ''..'' then resolve cs (butlast st)
      else resolve cs (st @ [c]))"

definition path_of :: "string \<Rightarrow> path" where
  "path_of s = resolve (strings_Split CHR ''/'' s) []"

definition filepath_Join :: "string \<Rightarrow> string \<Rightarrow> string" where
  "filepath_Join a b = a @ ''/'' @ b"

text \<open>
  \<^verbatim>\<open>filepath.Clean(name) == "."\<close>: the name is not rooted and nothing is left of it once the
  cleaning has dropped empty and \<^verbatim>\<open>.\<close> components and cancelled each \<^verbatim>\<open>..\<close> against the
  component before it (a leading \<^verbatim>\<open>..\<close> stays).
\<close>

fun cleanRel :: "string list \<Rightarrow> string list \<Rightarrow> string list" where
  "cleanRel [] st = st"
| "cleanRel (c # cs) st =
     (if c = [] \<or> c = ''.'' then cleanRel cs st
      else if c = ''..'' then
        (if st = [] \<or> last st = ''..'' then cleanRel cs (st @ [c]) else cleanRel cs (butlast st))
      else cleanRel cs (st @ [c]))"

definition cleanIsDot :: "string \<Rightarrow> bool" where
  "cleanIsDot name =
     ((name = [] \<or> hd name \<noteq> CHR ''/'') \<and> cleanRel (strings_Split CHR ''/'' name) [] = [])"

section \<open>The file system\<close>

text \<open>
  The file system is a table from paths to nodes; the root is a directory and has no entry.
  A symbolic link is stored with its target and never followed: an operation that would have
  to go through one reports an error. File modes are the permission bits
  (\<^verbatim>\<open>0755\<close> is 493, \<^verbatim>\<open>0666\<close> is 438).
\<close>

datatype node = File "byte list" nat | Dir nat | Symlink string | Special

type_synonym fs = "(path \<times> node) list"

datatype errno = ENOENT | EEXIST | ENOTDIR | EISDIR | ELINK | EIO

definition lookup :: "fs \<Rightarrow> path \<Rightarrow> node option" where
  "lookup t p = (if p = [] then Some (Dir 493) else map_of t p)"

definition isDir :: "fs \<Rightarrow> path \<Rightarrow> bool" where
  "isDir t p = (case lookup t p of Some (Dir m) \<Rightarrow> True | _ \<Rightarrow> False)"

text \<open>\<^verbatim>\<open>os.ReadDir\<close>: the names in a directory.\<close>

definition os_ReadDir :: "fs \<Rightarrow> path \<Rightarrow> errno + string list" where
  "os_ReadDir t p =
     (case lookup t p of
        None \<Rightarrow> Inl ENOENT
      | Some (Dir m) \<Rightarrow> Inr (map (\<lambda>(k, n). last k) (filter (\<lambda>(k, n). k \<noteq> [] \<and> butlast k = p) t))
      | Some n \<Rightarrow> Inl ENOTDIR)"

text \<open>\<^verbatim>\<open>os.RemoveAll\<close>: the node and everything below it; no error when there is none.\<close>

definition os_RemoveAll :: "path \<Rightarrow> fs \<Rightarrow> errno + fs" where
  "os_RemoveAll p t = Inr (filter (\<lambda>(k, n). \<not> prefix p k) t)"

text \<open>\<^verbatim>\<open>os.Mkdir\<close>, \<^verbatim>\<open>os.Symlink\<close>: the parent is a directory and the name is free.\<close>

definition addNode :: "path \<Rightarrow> node \<Rightarrow> fs \<Rightarrow> errno + fs" where
  "addNode p n t =
     (if p = [] then Inl EEXIST
      else if \<not> isDir t (butlast p) then
        (if lookup t (butlast p) = None then Inl ENOENT else Inl ENOTDIR)
      else if lookup t p \<noteq> None then Inl EEXIST
      else Inr (AList.update p n t))"

definition os_Mkdir :: "path \<Rightarrow> nat \<Rightarrow> fs \<Rightarrow> errno + fs" where
  "os_Mkdir p m t = addNode p (Dir m) t"

definition os_Symlink :: "string \<Rightarrow> path \<Rightarrow> fs \<Rightarrow> errno + fs" where
  "os_Symlink target p t = addNode p (Symlink target) t"

text \<open>
  \<^verbatim>\<open>os.MkdirAll\<close>: every missing directory on the way is made; a component that exists and is
  not a directory is an error. \<open>pre\<close> is the part of the path already known to be a directory.
\<close>

fun mkdirFrom :: "path \<Rightarrow> string list \<Rightarrow> nat \<Rightarrow> fs \<Rightarrow> errno + fs" where
  "mkdirFrom pre [] m t = Inr t"
| "mkdirFrom pre (c # cs) m t =
     (case lookup t (pre @ [c]) of
        None \<Rightarrow> mkdirFrom (pre @ [c]) cs m (AList.update (pre @ [c]) (Dir m) t)
      | Some (Dir m') \<Rightarrow> mkdirFrom (pre @ [c]) cs m t
      | Some (Symlink l) \<Rightarrow> Inl ELINK
      | Some n \<Rightarrow> Inl ENOTDIR)"

definition os_MkdirAll :: "path \<Rightarrow> nat \<Rightarrow> fs \<Rightarrow> errno + fs" where
  "os_MkdirAll p m t = mkdirFrom [] p m t"

text \<open>
  \<^verbatim>\<open>os.OpenFile(name, O_WRONLY|O_CREATE|O_TRUNC, perm)\<close> and \<^verbatim>\<open>os.Create\<close> (the same with
  \<^verbatim>\<open>0666\<close>): a new empty file, or the old file emptied, its mode kept. The handle is the path and
  the write offset.
\<close>

record ofile =
  opath :: path
  opos :: nat

definition os_OpenFile :: "path \<Rightarrow> nat \<Rightarrow> fs \<Rightarrow> errno + (ofile \<times> fs)" where
  "os_OpenFile p perm t =
     (if p = [] then Inl EISDIR
      else if \<not> isDir t (butlast p) then
        (if lookup t (butlast p) = None then Inl ENOENT else Inl ENOTDIR)
      else
        (case lookup t p of
           None \<Rightarrow> Inr (\<lparr>opath = p, opos = 0\<rparr>, AList.update p (File [] perm) t)
         | Some (File c m) \<Rightarrow> Inr (\<lparr>opath = p, opos = 0\<rparr>, AList.update p (File [] m) t)
         | Some (Dir m) \<Rightarrow> Inl EISDIR
         | Some (Symlink l) \<Rightarrow> Inl ELINK
         | Some Special \<Rightarrow> Inl EIO))"

definition os_Create :: "path \<Rightarrow> fs \<Rightarrow> errno + (ofile \<times> fs)" where
  "os_Create p t = os_OpenFile p 438 t"

text \<open>
  \<^verbatim>\<open>f.Write\<close> at the handle's offset: bytes already there are overwritten, the file grows as
  needed. \<^verbatim>\<open>f.Chmod\<close> sets the mode.
\<close>

definition writeAt :: "nat \<Rightarrow> byte list \<Rightarrow> byte list \<Rightarrow> byte list" where
  "writeAt pos bs c = take pos c @ replicate (pos - length c) 0 @ bs @ drop (pos + length bs) c"

definition ofile_Write :: "ofile \<Rightarrow> byte list \<Rightarrow> fs \<Rightarrow> errno + (ofile \<times> fs)" where
  "ofile_Write f bs t =
     (case lookup t (opath f) of
        Some (File c m) \<Rightarrow>
          Inr (f\<lparr>opos := opos f + length bs\<rparr>,
               AList.update (opath f) (File (writeAt (opos f) bs c) m) t)
      | _ \<Rightarrow> Inl EIO)"

definition ofile_Chmod :: "ofile \<Rightarrow> nat \<Rightarrow> fs \<Rightarrow> errno + fs" where
  "ofile_Chmod f perm t =
     (case lookup t (opath f) of
        Some (File c m) \<Rightarrow> Inr (AList.update (opath f) (File c perm) t)
      | _ \<Rightarrow> Inl EIO)"

text \<open>\<^verbatim>\<open>os.Open\<close> followed by \<^verbatim>\<open>io.ReadAll\<close>: a directory opens but does not read.\<close>

definition os_Open :: "fs \<Rightarrow> path \<Rightarrow> errno + node" where
  "os_Open t p =
     (case lookup t p of
        None \<Rightarrow> Inl ENOENT
      | Some (Symlink l) \<Rightarrow> Inl ELINK
      | Some Special \<Rightarrow> Inl EIO
      | Some n \<Rightarrow> Inr n)"

text \<open>\<^verbatim>\<open>os.Stat\<close> fails where \<^verbatim>\<open>os.Open\<close> does.\<close>

definition os_Stat :: "fs \<Rightarrow> path \<Rightarrow> errno + node" where
  "os_Stat t p = os_Open t p"

definition io_ReadAll :: "node \<Rightarrow> errno + byte list" where
  "io_ReadAll n = (case n of File c m \<Rightarrow> Inr c | _ \<Rightarrow> Inl EISDIR)"


section \<open>The tar stream and its codec\<close>

text \<open>
  A tar entry as the program uses it: the header's name, type, mode and link target, and the
  content that follows the header.
\<close>

datatype tar_type = TypeReg | TypeDir | TypeSymlink | TypeOther

record tar_entry =
  hdr_Name :: string
  hdr_Typeflag :: tar_type
  hdr_Mode :: nat
  hdr_Linkname :: string
  body :: "byte list"

text \<open>
  The tar and zstd formats are the libraries'. The builder takes the encoder as a parameter: the
  bytes the two writers have put into the file once both are closed. The extractor takes the
  decoder: \<open>None\<close> when \<^verbatim>\<open>zstd.NewReader\<close> fails, else the entries the tar reader yields from
  a payload, and whether the stream then ends cleanly (\<^verbatim>\<open>io.EOF\<close>) or with a read error.
\<close>

type_synonym encoder = "tar_entry list \<Rightarrow> byte list"

type_synonym decoder = "byte list \<Rightarrow> (tar_entry list \<times> bool) option"

section \<open>The archive builder (create)\<close>

text \<open>
  What the builder takes from outside the file system: the system's entropy source
  (\<open>None\<close> when \<^verbatim>\<open>rand.Read\<close> fails), the encoder, and the steps on the output file at
  which the device reports an error.
\<close>

datatype io_step =
  CopyStub | WriteBoundary | WriteKey | WritePlaceholder | TellStart | NewZstd | WriteTar
  | CloseTar | CloseZstd | TellEnd | SeekBack | Backpatch | Chmod | CloseOut

record build_env =
  entropy :: "(nat \<Rightarrow> byte) option"
  encode :: encoder
  io_fault :: "io_step \<Rightarrow> bool"

definition generateRandomKey :: "build_env \<Rightarrow> (byte list) outcome" where
  "generateRandomKey e =
     (case entropy e of
        None \<Rightarrow> Fatal ''generating random key:''
      | Some r \<Rightarrow> Ok (map r [0..<keyLength]))"

text \<open>
  \<^verbatim>\<open>io.Copy(f, self)\<close> reads the stub to its end in chunks of 32 KiB; \<open>None\<close> is a read error.
\<close>

definition copyBufferSize :: nat where
  "copyBufferSize = 32 * 1024"

function readToEnd :: "osfile \<Rightarrow> byte list \<Rightarrow> byte list option" where
  "readToEnd self acc =
     (case file_Read copyBufferSize self of
        (EOF, self') \<Rightarrow> Some acc
      | (IOError, self') \<Rightarrow> None
      | (Data d, self') \<Rightarrow> readToEnd self' (acc @ d))"
  by pat_completeness auto
termination
  by (relation "measure (\<lambda>(f, a). length (content f) - offset f)")
     (auto simp: file_Read_def copyBufferSize_def Let_def split: if_splits)

declare readToEnd.simps [simp del]

text \<open>
  \<^verbatim>\<open>fs.WalkDir(os.DirFS(cd), file, fn)\<close>: the calls of \<open>fn\<close>, each with the path it is given and
  the node found there or the error. The root comes first, then everything below it when it is
  a directory, in the order of the table (the library walks a directory in name order). A path
  that leaves \<open>cd\<close> is not valid for \<^verbatim>\<open>os.DirFS\<close> and gives an error.
\<close>

definition validPath :: "string \<Rightarrow> bool" where
  "validPath file =
     (file = ''.'' \<or>
      (\<forall>c \<in> set (strings_Split CHR ''/'' file). c \<noteq> [] \<and> c \<noteq> ''.'' \<and> c \<noteq> ''..''))"

definition joinNames :: "string list \<Rightarrow> string" where
  "joinNames cs = (case cs of [] \<Rightarrow> ''.'' | c # rest \<Rightarrow> foldl (\<lambda>a b. a @ ''/'' @ b) c rest)"

definition walkDir :: "fs \<Rightarrow> string \<Rightarrow> string \<Rightarrow> (string \<times> (errno + node)) list" where
  "walkDir t cd file =
     (if \<not> validPath file then [(file, Inl ENOENT)]
      else
        (let root = path_of (filepath_Join cd file); rel = path_of file
         in case lookup t root of
              None \<Rightarrow> [(file, Inl ENOENT)]
            | Some (Dir m) \<Rightarrow>
                (file, Inr (Dir m)) #
                map (\<lambda>(k, n). (joinNames (rel @ drop (length root) k), Inr n))
                    (filter (\<lambda>(k, n). strict_prefix root k) t)
            | Some n \<Rightarrow> [(file, Inr n)]))"

text \<open>
  The callback of the walk: the tar entry written for one visited path, \<open>None\<close> for the root
  marker \<^verbatim>\<open>.\<close> that is skipped.
\<close>

definition archiveEntry :: "string \<times> (errno + node) \<Rightarrow> (tar_entry option) outcome" where
  "archiveEntry v =
     (case v of
        (path, Inl e) \<Rightarrow> Fatal ''opening input file''
      | (path, Inr n) \<Rightarrow>
          if path = ''.'' then Ok None
          else
            (case n of
               Dir m \<Rightarrow> Ok (Some \<lparr>hdr_Name = path, hdr_Typeflag = TypeDir, hdr_Mode = m,
                                  hdr_Linkname = [], body = []\<rparr>)
             | Symlink l \<Rightarrow> Ok (Some \<lparr>hdr_Name = path, hdr_Typeflag = TypeSymlink, hdr_Mode = 511,
                                  hdr_Linkname = l, body = []\<rparr>)
             | File c m \<Rightarrow> Ok (Some \<lparr>hdr_Name = path, hdr_Typeflag = TypeReg, hdr_Mode = m,
                                  hdr_Linkname = [], body = c\<rparr>)
             | Special \<Rightarrow> Fatal ''unsupported file type:''))"

fun archiveAll :: "(string \<times> (errno + node)) list \<Rightarrow> (tar_entry list) outcome" where
  "archiveAll [] = Ok []"
| "archiveAll (v # vs) =
     (case archiveEntry v of
        Fatal m \<Rightarrow> Fatal m
      | Panic m \<Rightarrow> Panic m
      | Ok e \<Rightarrow>
          (case archiveAll vs of
             Fatal m \<Rightarrow> Fatal m
           | Panic m \<Rightarrow> Panic m
           | Ok es \<Rightarrow> Ok (case e of None \<Rightarrow> es | Some x \<Rightarrow> x # es)))"

text \<open>The loop over the input paths; each is cleaned before it is walked.\<close>

definition filepath_Clean :: "string \<Rightarrow> string" where
  "filepath_Clean file =
     (if file \<noteq> [] \<and> hd file = CHR ''/''
      then (if path_of file = [] then ''/'' else CHR ''/'' # joinNames (path_of file))
      else joinNames (cleanRel (strings_Split CHR ''/'' file) []))"

definition archiveFiles :: "fs \<Rightarrow> string \<Rightarrow> string list \<Rightarrow> (tar_entry list) outcome" where
  "archiveFiles t cd files =
     archiveAll (concat (map (\<lambda>file. walkDir t cd (filepath_Clean file)) files))"

text \<open>
  The rest of \<^verbatim>\<open>create\<close>, once the output file is open, in three stretches: the stub and the
  trailer with its placeholder; the payload; the patch of the length and the closing steps.
  The result of the last \<^verbatim>\<open>f.Write\<close> is not looked at in the source, so a failure there changes
  nothing in the run.
\<close>

definition createFinish :: "build_env \<Rightarrow> ofile \<Rightarrow> nat \<Rightarrow> fs \<Rightarrow> unit outcome \<times> fs" where
  "createFinish e f offs t =
     (if io_fault e TellEnd then (Fatal ''getting offset of end of payload:'', t)
      else
        (let payload_end = opos f in
         if io_fault e SeekBack then (Fatal ''seek back to payload size place holder'', t)
         else
           (let f1 = f\<lparr>opos := offs - 8\<rparr>;
                buffer = LittleEndian_PutUint64 (word_of_nat (payload_end - offs));
                t1 = (if io_fault e Backpatch then t
                      else (case ofile_Write f1 buffer t of Inl err \<Rightarrow> t | Inr (f2, t') \<Rightarrow> t'))
            in if io_fault e Chmod then (Fatal ''making output file executable:'', t1)
               else
                 (case ofile_Chmod f1 493 t1 of
                    Inl err \<Rightarrow> (Fatal ''making output file executable:'', t1)
                  | Inr t2 \<Rightarrow>
                      if io_fault e CloseOut then (Fatal ''closing output file:'', t2)
                      else (Ok (), t2)))))"

definition createPayload ::
    "build_env \<Rightarrow> ofile \<Rightarrow> string list \<Rightarrow> string \<Rightarrow> fs \<Rightarrow> unit outcome \<times> fs" where
  "createPayload e f files cd t =
     (if io_fault e TellStart then (Fatal ''getting start position of payload:'', t)
      else
        (let offs = opos f in
         if io_fault e NewZstd then (Fatal ''creating zstd compressor:'', t)
         else
           (case archiveFiles t cd files of
              Fatal m \<Rightarrow> (Fatal m, t)
            | Panic m \<Rightarrow> (Panic m, t)
            | Ok entries \<Rightarrow>
                if io_fault e WriteTar then (Fatal ''writing tar header of file:'', t)
                else if io_fault e CloseTar then (Fatal ''closing tar:'', t)
                else if io_fault e CloseZstd then (Fatal ''closing zstd:'', t)
                else
                  (case ofile_Write f (encode e entries) t of
                     Inl err \<Rightarrow> (Fatal ''closing zstd:'', t)
                   | Inr (f1, t1) \<Rightarrow> createFinish e f1 offs t1))))"

definition createHeader ::
    "build_env \<Rightarrow> osfile \<Rightarrow> ofile \<Rightarrow> string list \<Rightarrow> string \<Rightarrow> fs \<Rightarrow> unit outcome \<times> fs" where
  "createHeader e self f files cd t =
     (case (if io_fault e CopyStub then None else readToEnd self []) of
        None \<Rightarrow> (Fatal ''writing stub to output file:'', t)
      | Some stub \<Rightarrow>
          (case ofile_Write f stub t of
             Inl err \<Rightarrow> (Fatal ''writing stub to output file:'', t)
           | Inr (f1, t1) \<Rightarrow>
               (case (if io_fault e WriteBoundary then Inl EIO
                      else ofile_Write f1 generateBoundary t1) of
                  Inl err \<Rightarrow> (Fatal ''writing boundary to output file:'', t1)
                | Inr (f2, t2) \<Rightarrow>
                    (case generateRandomKey e of
                       Fatal m \<Rightarrow> (Fatal m, t2)
                     | Panic m \<Rightarrow> (Panic m, t2)
                     | Ok k \<Rightarrow>
                         (case (if io_fault e WriteKey then Inl EIO else ofile_Write f2 k t2) of
                            Inl err \<Rightarrow> (Fatal ''writing key to output file:'', t2)
                          | Inr (f3, t3) \<Rightarrow>
                              (case (if io_fault e WritePlaceholder then Inl EIO
                                     else ofile_Write f3 sizePlaceholder t3) of
                                 Inl err \<Rightarrow> (Fatal ''writing placeholder for payload size'', t3)
                               | Inr (f4, t4) \<Rightarrow> createPayload e f4 files cd t4))))))"

text \<open>
  \<^verbatim>\<open>create(self, key, out, files, cd)\<close>. The key passed in is not used: the builder draws its
  own. The result is the outcome and the file system as the run leaves it.
\<close>

definition create ::
    "build_env \<Rightarrow> osfile \<Rightarrow> byte list \<Rightarrow> string \<Rightarrow> string list \<Rightarrow> string \<Rightarrow> fs
      \<Rightarrow> unit outcome \<times> fs" where
  "create e self key out files cd t =
     (if length files = 0 then (Fatal ''no files to archive'', t)
      else
        (case os_OpenFile (path_of out) 438 t of
           Inl err \<Rightarrow> (Fatal ''opening output file:'', t)
         | Inr (f, t1) \<Rightarrow> createHeader e self f files cd t1))"


text \<open>A build whose stub ends 32 bytes before a block boundary, and the tree it archives.\<close>

definition misalignedBuild :: build_env where
  "misalignedBuild = \<lparr>entropy = Some (\<lambda>i. 7), encode = (\<lambda>es. [1, 2, 3, 4]), io_fault = (\<lambda>s. False)\<rparr>"

definition inputTree :: fs where
  "inputTree = [([''a''], File [104, 105] 420)]"

text \<open>The same build on a device that fails the write of the patched length.\<close>

definition unpatchedBuild :: build_env where
  "unpatchedBuild = \<lparr>entropy = Some (\<lambda>i. 7), encode = (\<lambda>es. [1, 2, 3, 4]),
                       io_fault = (\<lambda>s. s = Backpatch)\<rparr>"


section \<open>The mount probe (extract.go, checkExecutable)\<close>

text \<open>
  What opening and reading \<^verbatim>\<open>/proc/mounts\<close> gives: an error at \<^verbatim>\<open>os.Open\<close>, an error at
  \<^verbatim>\<open>io.ReadAll\<close>, or the text of the table.
\<close>

datatype mounts_file = OpenFails | ReadFails | Mounts string

definition strings_HasSuffix_slash :: "string \<Rightarrow> bool" where
  "strings_HasSuffix_slash s = (s \<noteq> [] \<and> last s = CHR ''/'')"

definition hasNoexec :: "string \<Rightarrow> bool" where
  "hasNoexec options = (''noexec'' \<in> set (strings_Split CHR '','' options))"

text \<open>
  The loop over the lines of the table. Its state is \<^verbatim>\<open>mntp\<close> and \<^verbatim>\<open>noexec\<close>. A line of two or
  three fields passes the length test and then panics at \<^verbatim>\<open>fields[3]\<close>.
\<close>

fun mountLoop :: "string list \<Rightarrow> string \<Rightarrow> string \<times> bool \<Rightarrow> (string \<times> bool) outcome" where
  "mountLoop [] path st = Ok st"
| "mountLoop (entry # rest) path (mntp, noexec) =
     (let fields = strings_Split CHR '' '' entry in
      if length fields < 2 then mountLoop rest path (mntp, noexec)
      else if length fields < 4 then Panic ''index out of range [3]''
      else
        (let mountpoint = fields ! 1; options = fields ! 3 in
         if length mountpoint > length path then mountLoop rest path (mntp, noexec)
         else if mountpoint = path then Ok (mountpoint, hasNoexec options)
         else
           (let mountpoint' =
                  (if \<not> strings_HasSuffix_slash mountpoint then mountpoint @ ''/'' else mountpoint)
            in if prefix mountpoint' path then
                 (if length mntp < length mountpoint'
                  then mountLoop rest path (mountpoint', hasNoexec options)
                  else mountLoop rest path (mntp, noexec))
               else mountLoop rest path (mntp, noexec))))"

definition checkExecutable :: "mounts_file \<Rightarrow> string \<Rightarrow> bool outcome" where
  "checkExecutable m path =
     (case m of
        OpenFails \<Rightarrow> Ok False
      | ReadFails \<Rightarrow> Ok False
      | Mounts data \<Rightarrow>
          (case mountLoop (strings_Split (CHR 0x0A) data) path ([], False) of
             Ok (mntp, noexec) \<Rightarrow> Ok (\<not> noexec)
           | Fatal msg \<Rightarrow> Fatal msg
           | Panic msg \<Rightarrow> Panic msg))"

text \<open>
  The vocabulary of the claim about the probe. The entries of a table are the mount point and
  the options of every line that has them. An entry matches a path when its mount point is
  the path, or is a prefix of it once a separator ends it. The lines of a table are complete
  when every line that is not blank has at least four fields; its mount points are canonical
  when each is \<^verbatim>\<open>/\<close> or a non-empty string that does not end in a separator. The kernel writes
  tables that are both.
\<close>

definition mountEntries :: "string \<Rightarrow> (string \<times> string) list" where
  "mountEntries data =
     map (\<lambda>fields. (fields ! 1, fields ! 3))
       (filter (\<lambda>fields. 2 \<le> length fields)
          (map (strings_Split CHR '' '') (strings_Split (CHR 0x0A) data)))"

definition withSeparator :: "string \<Rightarrow> string" where
  "withSeparator mp = (if strings_HasSuffix_slash mp then mp else mp @ ''/'')"

definition mountMatches :: "string \<Rightarrow> string \<times> string \<Rightarrow> bool" where
  "mountMatches path e = (fst e = path \<or> prefix (withSeparator (fst e)) path)"

definition canonicalMountPoint :: "string \<Rightarrow> bool" where
  "canonicalMountPoint mp = (mp = ''/'' \<or> (mp \<noteq> [] \<and> last mp \<noteq> CHR ''/''))"

definition completeLines :: "string \<Rightarrow> bool" where
  "completeLines data =
     list_all (\<lambda>fields. length fields < 2 \<or> 4 \<le> length fields)
       (map (strings_Split CHR '' '') (strings_Split (CHR 0x0A) data))"

definition canonicalMounts :: "string \<Rightarrow> bool" where
  "canonicalMounts data = list_all (\<lambda>e. canonicalMountPoint (fst e)) (mountEntries data)"

definition overlappingMounts :: string where
  "overlappingMounts =
     ''rootfs / ext4 rw,relatime 0 0'' @ [CHR 0x0A] @
     ''tmpfs /tmp tmpfs rw,nosuid,noexec 0 0'' @ [CHR 0x0A]"


text \<open>
  For the proof about the loop: the entries of a list of lines; that no entry of a list matches
  better than a separator-ended length \<open>k\<close>; and that some entry does, is at least as long as every
  other match, and gives the flag \<open>n\<close>.
\<close>

definition lineEntries :: "string list \<Rightarrow> (string \<times> string) list" where
  "lineEntries ls =
     map (\<lambda>fields. (fields ! 1, fields ! 3))
       (filter (\<lambda>fields. 2 \<le> length fields) (map (strings_Split CHR '' '') ls))"

definition nothingBetter :: "string \<Rightarrow> (string \<times> string) list \<Rightarrow> nat \<Rightarrow> bool" where
  "nothingBetter path es k =
     (\<forall>e \<in> set es. mountMatches path e \<longrightarrow> fst e \<noteq> path \<and> length (withSeparator (fst e)) \<le> k)"

definition selected :: "string \<Rightarrow> (string \<times> string) list \<Rightarrow> nat \<Rightarrow> bool \<Rightarrow> bool" where
  "selected path es k n =
     (\<exists>e \<in> set es. mountMatches path e \<and> n = hasNoexec (snd e)
        \<and> (fst e = path \<or> k < length (withSeparator (fst e)))
        \<and> (\<forall>e' \<in> set es. mountMatches path e' \<longrightarrow>
              length (withSeparator (fst e')) \<le> length (withSeparator (fst e))))"


section \<open>The extraction directory and the extraction engine (extract.go)\<close>

definition keyFileName :: string where
  "keyFileName = ''.selfextract.key''"

text \<open>
  The fields of \<^verbatim>\<open>selfExtractor\<close> but the channel, which the lifecycle below models. The payload
  reader is held as the bytes it yields.
\<close>

record selfExtractor =
  extractDir :: string
  skipExtract :: bool
  tempDir :: bool
  payload :: "byte list"
  key :: "byte list"

text \<open>
  What a run takes from its environment: the two variables, the mount table, the system's
  temporary directory, the path of the executable (\<open>None\<close> when \<^verbatim>\<open>os.Executable\<close> fails), the
  random part of a temporary name, the arguments of the invocation, the decoder of the
  payload, and what running a command gives: it ran and exited with 0, it ended with an exit
  error that carries a code, or it could not be started or failed otherwise.
\<close>

datatype run_result = RunOk | ExitError int | RunError

record run_env =
  env_Dir :: string
  env_ExtractOnly :: string
  proc_mounts :: mounts_file
  os_TempDir :: string
  os_Executable :: "string option"
  temp_suffix :: string
  os_Args :: "string list"
  decode :: decoder
  exec_Run :: "string list \<Rightarrow> run_result"

text \<open>\<^verbatim>\<open>filepath.Dir\<close> of a clean path: all but the last element.\<close>

definition filepath_Dir :: "string \<Rightarrow> string" where
  "filepath_Dir s =
     (let d = joinNames (butlast (strings_Split CHR ''/'' s))
      in if d = [] then ''/'' else d)"

definition getCwd :: "run_env \<Rightarrow> string outcome" where
  "getCwd e =
     (case os_Executable e of
        None \<Rightarrow> Fatal ''Failed to retrieve current executable, refuse to continue.''
      | Some exe \<Rightarrow> Ok (filepath_Dir exe))"

text \<open>\<^verbatim>\<open>os.MkdirTemp(dir, pattern)\<close>, with the random part of the name taken from the environment.\<close>

definition os_MkdirTemp :: "run_env \<Rightarrow> string \<Rightarrow> string \<Rightarrow> fs \<Rightarrow> errno + (string \<times> fs)" where
  "os_MkdirTemp e dir pattern t =
     (let name = filepath_Join (if dir = [] then os_TempDir e else dir) (pattern @ temp_suffix e)
      in case os_Mkdir (path_of name) 448 t of
           Inl err \<Rightarrow> Inl err
         | Inr t' \<Rightarrow> Inr (name, t'))"

definition generateExtractDir :: "run_env \<Rightarrow> fs \<Rightarrow> (errno + (string \<times> fs)) outcome" where
  "generateExtractDir e t =
     (let tmp = os_TempDir e in
      case getCwd e of
        Fatal m \<Rightarrow> Fatal m
      | Panic m \<Rightarrow> Panic m
      | Ok pwd \<Rightarrow>
          (case checkExecutable (proc_mounts e) tmp of
             Fatal m \<Rightarrow> Fatal m
           | Panic m \<Rightarrow> Panic m
           | Ok True \<Rightarrow> Ok (os_MkdirTemp e [] ''selfextract'' t)
           | Ok False \<Rightarrow>
               (case checkExecutable (proc_mounts e) pwd of
                  Fatal m \<Rightarrow> Fatal m
                | Panic m \<Rightarrow> Panic m
                | Ok True \<Rightarrow> Ok (os_MkdirTemp e pwd ''selfextract'' t)
                | Ok False \<Rightarrow>
                    Fatal ''cannot find suitable directory for execution, please assign one manually.'')))"

text \<open>\<^verbatim>\<open>cleanupDir\<close> removes the contents of a directory but not the directory itself.\<close>

fun removeEntries :: "path \<Rightarrow> string list \<Rightarrow> fs \<Rightarrow> errno + fs" where
  "removeEntries dir [] t = Inr t"
| "removeEntries dir (name # names) t =
     (case os_RemoveAll (dir @ [name]) t of
        Inl err \<Rightarrow> Inl err
      | Inr t' \<Rightarrow> removeEntries dir names t')"

definition cleanupDir :: "string \<Rightarrow> fs \<Rightarrow> errno + fs" where
  "cleanupDir dir t =
     (case os_ReadDir t (path_of dir) of
        Inl err \<Rightarrow> Inl err
      | Inr entries \<Rightarrow> removeEntries (path_of dir) entries t)"

definition keyFilePath :: "string \<Rightarrow> path" where
  "keyFilePath dir = path_of (filepath_Join dir keyFileName)"

definition prepareExtractDir ::
    "run_env \<Rightarrow> selfExtractor \<Rightarrow> fs \<Rightarrow> selfExtractor outcome \<times> fs" where
  "prepareExtractDir e se t =
     (let dir = env_Dir e in
      if dir = [] then
        (case generateExtractDir e t of
           Fatal m \<Rightarrow> (Fatal m, t)
         | Panic m \<Rightarrow> (Panic m, t)
         | Ok (Inl err) \<Rightarrow> (Fatal ''creating temporary extraction directory:'', t)
         | Ok (Inr (name, t')) \<Rightarrow> (Ok (se\<lparr>extractDir := name, tempDir := True\<rparr>), t'))
      else
        (let se1 = se\<lparr>extractDir := dir\<rparr> in
         case lookup t (path_of dir) of
           None \<Rightarrow>
             (case os_MkdirAll (path_of dir) 493 t of
                Inl err \<Rightarrow> (Fatal ''creating extraction directory:'', t)
              | Inr t' \<Rightarrow> (Ok se1, t'))
         | Some (Symlink l) \<Rightarrow>
             (case os_MkdirAll (path_of dir) 493 t of
                Inl err \<Rightarrow> (Fatal ''creating extraction directory:'', t)
              | Inr t' \<Rightarrow> (Ok se1, t'))
         | Some (File c m) \<Rightarrow> (Fatal ''extraction directory not a directory'', t)
         | Some Special \<Rightarrow> (Fatal ''extraction directory not a directory'', t)
         | Some (Dir m) \<Rightarrow>
             (case os_ReadDir t (path_of dir) of
                Inl err \<Rightarrow> (Fatal ''listing extraction dir:'', t)
              | Inr entries \<Rightarrow>
                  if length entries = 0 then (Ok se1, t)
                  else
                    (case os_Open t (keyFilePath dir) of
                       Inl err \<Rightarrow>
                         (Fatal ''opening key file (extraction dir must be empty or contain a valid key file):'', t)
                     | Inr keyFile \<Rightarrow>
                         (case io_ReadAll keyFile of
                            Inl err \<Rightarrow>
                              (Fatal ''reading key file (extraction dir must be empty or contain a valid key file):'', t)
                          | Inr keyData \<Rightarrow>
                              if hex_EncodeToString (key se1)
                                   = strings_TrimSpace (string_of_bytes keyData)
                              then (Ok (se1\<lparr>skipExtract := True\<rparr>), t)
                              else
                                (case cleanupDir dir t of
                                   Inl err \<Rightarrow> (Fatal ''cleaning extraction dir:'', t)
                                 | Inr t' \<Rightarrow> (Ok se1, t')))))))"

text \<open>\<^verbatim>\<open>createFile\<close>: the parents are made, then the file is created.\<close>

definition createFile :: "path \<Rightarrow> fs \<Rightarrow> errno + (ofile \<times> fs)" where
  "createFile p t =
     (case os_MkdirAll (butlast p) 493 t of
        Inl err \<Rightarrow> Inl err
      | Inr t' \<Rightarrow> os_Create p t')"

definition cleanupAndDie :: "string \<Rightarrow> string \<Rightarrow> fs \<Rightarrow> unit outcome \<times> fs" where
  "cleanupAndDie dir msg t =
     (case cleanupDir dir t of
        Inl err \<Rightarrow> (Fatal ''got error:'', t)
      | Inr t' \<Rightarrow> (Fatal msg, t'))"

text \<open>
  The elements of \<^verbatim>\<open>filepath.Clean(hdr.Name)\<close>: for a rooted name a \<^verbatim>\<open>..\<close> at the root is
  dropped, for a relative one a leading \<^verbatim>\<open>..\<close> stays. \<^verbatim>\<open>filepath.Join(se.extractDir, name)\<close>
  then walks them from the extraction directory.
\<close>

definition cleanElements :: "string \<Rightarrow> string list" where
  "cleanElements name =
     (if name \<noteq> [] \<and> hd name = CHR ''/'' then resolve (strings_Split CHR ''/'' name) []
      else cleanRel (strings_Split CHR ''/'' name) [])"

definition targetPath :: "string \<Rightarrow> string \<Rightarrow> path" where
  "targetPath dir name = resolve (cleanElements name) (path_of dir)"

text \<open>
  The loop of \<^verbatim>\<open>extract\<close> over the entries the tar reader yields; \<open>clean\<close> tells whether
  the stream then ends with \<^verbatim>\<open>io.EOF\<close>.
\<close>

fun extractEntries :: "string \<Rightarrow> tar_entry list \<Rightarrow> bool \<Rightarrow> fs \<Rightarrow> unit outcome \<times> fs" where
  "extractEntries dir [] clean t =
     (if clean then (Ok (), t) else (Fatal ''reading embedded tar:'', t))"
| "extractEntries dir (hdr # rest) clean t =
     (if cleanIsDot (hdr_Name hdr) then extractEntries dir rest clean t
      else
        (let pathName = targetPath dir (hdr_Name hdr) in
         case hdr_Typeflag hdr of
           TypeReg \<Rightarrow>
             (case createFile pathName t of
                Inl err \<Rightarrow> cleanupAndDie dir ''creating file:'' t
              | Inr (f, t1) \<Rightarrow>
                  (case ofile_Write f (body hdr) t1 of
                     Inl err \<Rightarrow> cleanupAndDie dir ''writing file:'' t1
                   | Inr (f', t2) \<Rightarrow>
                       (case ofile_Chmod f' (hdr_Mode hdr) t2 of
                          Inl err \<Rightarrow> cleanupAndDie dir ''setting mode of file:'' t2
                        | Inr t3 \<Rightarrow> extractEntries dir rest clean t3)))
         | TypeDir \<Rightarrow>
             (case os_Mkdir pathName 493 t of
                Inl err \<Rightarrow> cleanupAndDie dir ''creating directory'' t
              | Inr t1 \<Rightarrow> extractEntries dir rest clean t1)
         | TypeSymlink \<Rightarrow>
             (case os_Symlink (hdr_Linkname hdr) pathName t of
                Inl err \<Rightarrow> cleanupAndDie dir ''creating symlink'' t
              | Inr t1 \<Rightarrow> extractEntries dir rest clean t1)
         | TypeOther \<Rightarrow> cleanupAndDie dir ''unsupported file type in tar'' t))"

definition createKeyFile :: "selfExtractor \<Rightarrow> fs \<Rightarrow> unit outcome \<times> fs" where
  "createKeyFile se t =
     (case os_Create (keyFilePath (extractDir se)) t of
        Inl err \<Rightarrow> (Fatal ''creating key file:'', t)
      | Inr (f, t1) \<Rightarrow>
          (case ofile_Write f (bytes_of_string (hex_EncodeToString (key se))) t1 of
             Inl err \<Rightarrow> (Fatal ''writing key file:'', t1)
           | Inr (f', t2) \<Rightarrow> (Ok (), t2)))"

text \<open>
  \<^verbatim>\<open>se.extract()\<close>. \<open>writePayload\<close> is everything after the test of \<^verbatim>\<open>skipExtract\<close>: the
  reader is opened, the entries are written, the key file is made last.
\<close>

definition writePayload :: "run_env \<Rightarrow> selfExtractor \<Rightarrow> fs \<Rightarrow> unit outcome \<times> fs" where
  "writePayload e se t =
     (case decode e (payload se) of
        None \<Rightarrow> (Fatal ''creating zstd reader:'', t)
      | Some (entries, clean) \<Rightarrow>
          (case extractEntries (extractDir se) entries clean t of
             (Ok u, t1) \<Rightarrow> createKeyFile se t1
           | (Fatal m, t1) \<Rightarrow> (Fatal m, t1)
           | (Panic m, t1) \<Rightarrow> (Panic m, t1)))"

definition se_extract :: "run_env \<Rightarrow> selfExtractor \<Rightarrow> fs \<Rightarrow> unit outcome \<times> fs" where
  "se_extract e se t = (if skipExtract se then (Ok (), t) else writePayload e se t)"


section \<open>The lifecycle controller (extract.go)\<close>

definition toLowerChar :: "char \<Rightarrow> char" where
  "toLowerChar c =
     (if of_char c \<ge> (65 :: nat) \<and> of_char c \<le> (90 :: nat) then char_of (of_char c + (32 :: nat)) else c)"

definition isTruthy :: "string \<Rightarrow> bool" where
  "isTruthy s = (map toLowerChar s \<in> set [''y'', ''yes'', ''true'', ''1''])"

text \<open>
  \<^verbatim>\<open>strings.ReplaceAll(s, old, new)\<close> for a non-empty \<open>old\<close>: occurrences are replaced from
  the left and do not overlap. The counter is the number of characters of a replaced occurrence
  still to be passed over.
\<close>

fun replaceFrom :: "string \<Rightarrow> string \<Rightarrow> nat \<Rightarrow> string \<Rightarrow> string" where
  "replaceFrom old new k [] = []"
| "replaceFrom old new (Suc k) (c # cs) = replaceFrom old new k cs"
| "replaceFrom old new 0 (c # cs) =
     (if prefix old (c # cs) then new @ replaceFrom old new (length old - 1) cs
      else c # replaceFrom old new 0 cs)"

definition strings_ReplaceAll :: "string \<Rightarrow> string \<Rightarrow> string \<Rightarrow> string" where
  "strings_ReplaceAll s old new = replaceFrom old new 0 s"

text \<open>
  \<^verbatim>\<open>shlex.Split\<close> of the library \<^verbatim>\<open>github.com/google/shlex\<close>: words are separated by white
  space; a backslash escapes the next character; single quotes quote literally, double quotes
  with backslash escapes; \<^verbatim>\<open>#\<close> where a word could start opens a comment that runs to the end
  of the line. \<open>None\<close> is the error at an input that ends in an escape or inside quotes.
  The result lists the words in order; \<open>val\<close> is the word being read.
\<close>

datatype lex_state =
  StartState | InWordState | EscapingState | EscapingQuotedState | QuotingEscapingState
  | QuotingState | CommentState

definition shlexSpace :: "char \<Rightarrow> bool" where
  "shlexSpace c = (c \<in> set [CHR '' '', CHR 0x09, CHR 0x0D, CHR 0x0A])"

fun shlexScan :: "lex_state \<Rightarrow> string \<Rightarrow> string \<Rightarrow> string list option" where
  "shlexScan st val [] =
     (case st of
        StartState \<Rightarrow> Some []
      | InWordState \<Rightarrow> Some [val]
      | CommentState \<Rightarrow> Some []
      | _ \<Rightarrow> None)"
| "shlexScan st val (c # cs) =
     (case st of
        StartState \<Rightarrow>
          (if shlexSpace c then shlexScan StartState [] cs
           else if c = CHR 0x22 then shlexScan QuotingEscapingState [] cs
           else if c = CHR 0x27 then shlexScan QuotingState [] cs
           else if c = CHR 0x5C then shlexScan EscapingState [] cs
           else if c = CHR ''#'' then shlexScan CommentState [] cs
           else shlexScan InWordState [c] cs)
      | InWordState \<Rightarrow>
          (if shlexSpace c then map_option (\<lambda>ws. val # ws) (shlexScan StartState [] cs)
           else if c = CHR 0x22 then shlexScan QuotingEscapingState val cs
           else if c = CHR 0x27 then shlexScan QuotingState val cs
           else if c = CHR 0x5C then shlexScan EscapingState val cs
           else shlexScan InWordState (val @ [c]) cs)
      | EscapingState \<Rightarrow> shlexScan InWordState (val @ [c]) cs
      | EscapingQuotedState \<Rightarrow> shlexScan QuotingEscapingState (val @ [c]) cs
      | QuotingEscapingState \<Rightarrow>
          (if c = CHR 0x22 then shlexScan InWordState val cs
           else if c = CHR 0x5C then shlexScan EscapingQuotedState val cs
           else shlexScan QuotingEscapingState (val @ [c]) cs)
      | QuotingState \<Rightarrow>
          (if c = CHR 0x27 then shlexScan InWordState val cs
           else shlexScan QuotingState (val @ [c]) cs)
      | CommentState \<Rightarrow>
          (if c = CHR 0x0A then shlexScan StartState [] cs
           else shlexScan CommentState (val @ [c]) cs))"

definition shlex_Split :: "string \<Rightarrow> string list option" where
  "shlex_Split s = shlexScan StartState [] s"

text \<open>
  \<^verbatim>\<open>runCmdline\<close>: the value it sends on the exit-code channel; a panic where the source indexes
  an empty argument vector.
\<close>

definition runCmdline :: "run_env \<Rightarrow> selfExtractor \<Rightarrow> fs \<Rightarrow> path \<Rightarrow> int outcome" where
  "runCmdline e se t p =
     (case os_Open t p of
        Inl err \<Rightarrow> Ok 1
      | Inr cmdfile \<Rightarrow>
          (case io_ReadAll cmdfile of
             Inl err \<Rightarrow> Ok 1
           | Inr cmdbytes \<Rightarrow>
               (let cmdline = strings_TrimSpace (string_of_bytes cmdbytes);
                    cmdline' = strings_ReplaceAll cmdline ''__EXTRACT_DIR__'' (extractDir se)
                in case shlex_Split cmdline' of
                     None \<Rightarrow> Ok 1
                   | Some words \<Rightarrow>
                       (let args = words @ tl (os_Args e) in
                        case args of
                          [] \<Rightarrow> Panic ''index out of range [0] with length 0''
                        | a0 # rest \<Rightarrow>
                            (case exec_Run e (a0 # rest) of
                               RunOk \<Rightarrow> Ok 0
                             | ExitError code \<Rightarrow> Ok code
                             | RunError \<Rightarrow> Ok 1)))))"

text \<open>
  \<^verbatim>\<open>startup\<close>: extract-only mode, or the command line file of the extracted tree. The export
  of the directory into the child's environment has no effect on what is modelled here.
\<close>

definition startup :: "run_env \<Rightarrow> selfExtractor \<Rightarrow> fs \<Rightarrow> int outcome" where
  "startup e se t =
     (if isTruthy (env_ExtractOnly e) then Ok 0
      else
        (let cmdlinePath = path_of (filepath_Join (extractDir se) ''selfextract_cmdline'')
         in case os_Stat t cmdlinePath of
              Inr n \<Rightarrow> runCmdline e se t cmdlinePath
            | Inl err \<Rightarrow> Fatal ''failed to find cmdline file, quitting...''))"

definition cleanup :: "selfExtractor \<Rightarrow> fs \<Rightarrow> fs" where
  "cleanup se t =
     (if tempDir se then (case os_RemoveAll (path_of (extractDir se)) t of Inl err \<Rightarrow> t | Inr t' \<Rightarrow> t')
      else t)"

text \<open>
  The exit-code channel has two senders: the signal task, which sends 2 once a registered
  signal has come and the grace period is over, and the startup task, which sends what
  \<^verbatim>\<open>startup\<close> yields. \<^verbatim>\<open>extract\<close> receives once. A race is given by what the signal task does:
  no signal comes, or its send is taken first, or the startup task's send is taken first. The
  time the grace period lasts is not modelled.
\<close>

datatype race = NoSignal | SignalFirst | StartupFirst

text \<open>
  \<^verbatim>\<open>setupSignals\<close>: what the signal task sends on the channel, when a signal comes at all.
\<close>

definition setupSignals :: "race \<Rightarrow> int option" where
  "setupSignals r = (case r of NoSignal \<Rightarrow> None | SignalFirst \<Rightarrow> Some 2 | StartupFirst \<Rightarrow> Some 2)"

text \<open>The one receive on the channel, given what the startup task yields.\<close>

definition receiveExit :: "race \<Rightarrow> int outcome \<Rightarrow> int outcome" where
  "receiveExit r started =
     (case r of
        SignalFirst \<Rightarrow> (case setupSignals r of Some code \<Rightarrow> Ok code | None \<Rightarrow> started)
      | NoSignal \<Rightarrow> started
      | StartupFirst \<Rightarrow> started)"

text \<open>
  \<^verbatim>\<open>extract(payload, key)\<close>, the whole run of a binary that carries a payload: the exit status
  and the file system it leaves. The status is the code given to \<^verbatim>\<open>os.Exit\<close>, 1 after \<^verbatim>\<open>die\<close>,
  2 after a panic of the Go runtime; after \<^verbatim>\<open>die\<close> or a panic the clean-up does not run.
\<close>

definition extract_main :: "run_env \<Rightarrow> race \<Rightarrow> byte list \<Rightarrow> byte list \<Rightarrow> fs \<Rightarrow> int \<times> fs" where
  "extract_main e r pl k t =
     (let se = \<lparr>extractDir = [], skipExtract = False, tempDir = False, payload = pl, key = k\<rparr>
      in case prepareExtractDir e se t of
           (Fatal m, t1) \<Rightarrow> (1, t1)
         | (Panic m, t1) \<Rightarrow> (2, t1)
         | (Ok se1, t1) \<Rightarrow>
             (case se_extract e se1 t1 of
                (Fatal m, t2) \<Rightarrow> (1, t2)
              | (Panic m, t2) \<Rightarrow> (2, t2)
              | (Ok u, t2) \<Rightarrow>
                  (case receiveExit r (startup e se1 t2) of
                     Ok code \<Rightarrow> (code, cleanup se1 t2)
                   | Fatal m \<Rightarrow> (1, t2)
                   | Panic m \<Rightarrow> (2, t2))))"

text \<open>
  \<^verbatim>\<open>main\<close>: the scanner decides between the two modes. The flags of the builder are given
  parsed: the name of the archive, the directory of the inputs, the input paths.
\<close>

definition main ::
    "run_env \<Rightarrow> build_env \<Rightarrow> race \<Rightarrow> osfile \<Rightarrow> string \<Rightarrow> string \<Rightarrow> string list \<Rightarrow> fs
      \<Rightarrow> int \<times> fs" where
  "main re be r self createName changeDir args t =
     (case parseSelf self of
        (Fatal m, s) \<Rightarrow> (1, t)
      | (Panic m, s) \<Rightarrow> (2, t)
      | (Ok (Payload n k), s) \<Rightarrow> extract_main re r (limitReader_bytes s n) k t
      | (Ok NoPayload, s) \<Rightarrow>
          (case create be (file_Seek 0 s) [] createName args changeDir t of
             (Ok u, t') \<Rightarrow> (0, t')
           | (Fatal m, t') \<Rightarrow> (1, t')
           | (Panic m, t') \<Rightarrow> (2, t')))"


section \<open>Concrete runs\<close>

text \<open>
  A run used to try the theorems: the extraction directory \<^verbatim>\<open>/app\<close> is configured and does not
  exist yet, the payload holds the command line file alone, and the command it names exits
  with code 7. \<open>demoTree\<close> is the file system the first run leaves; \<open>strayTree\<close> holds a
  directory that was filled by something else.
\<close>

definition demoKey :: "byte list" where
  "demoKey = [171, 171, 171, 171, 171, 171, 171, 171, 171, 171, 171, 171, 171, 171, 171, 171]"

definition demoCmdline :: tar_entry where
  "demoCmdline = \<lparr>hdr_Name = ''selfextract_cmdline'', hdr_Typeflag = TypeReg, hdr_Mode = 420,
                   hdr_Linkname = [], body = bytes_of_string ''__EXTRACT_DIR__/run''\<rparr>"

definition demoEnv :: run_env where
  "demoEnv = \<lparr>env_Dir = ''/app'', env_ExtractOnly = [], proc_mounts = OpenFails,
      os_TempDir = ''/tmp'', os_Executable = Some ''/bin/self'', temp_suffix = ''1'',
      os_Args = [''self'', ''--flag''],
      decode = (\<lambda>p. Some ([demoCmdline], True)),
      exec_Run = (\<lambda>args. if args = [''/app/run'', ''--flag''] then ExitError 7 else RunError)\<rparr>"

definition demoStart :: selfExtractor where
  "demoStart = \<lparr>extractDir = [], skipExtract = False, tempDir = False, payload = [1, 2, 3, 4], key = demoKey\<rparr>"

definition demoTree :: fs where
  "demoTree =
     [([''app''], Dir 493),
      ([''app'', ''selfextract_cmdline''], File (bytes_of_string ''__EXTRACT_DIR__/run'') 420),
      ([''app'', ''.selfextract.key''], File (bytes_of_string (hex_EncodeToString demoKey)) 438)]"



text \<open>
  The test \<^verbatim>\<open>prepareExtractDir\<close> makes before it sets \<^verbatim>\<open>skipExtract\<close>: the directory is there and
  not empty, the key file opens and reads, and its content, trimmed, is the key in hex.
\<close>

definition cacheHit :: "byte list \<Rightarrow> string \<Rightarrow> fs \<Rightarrow> bool" where
  "cacheHit k dir t =
     (isDir t (path_of dir)
      \<and> (case os_ReadDir t (path_of dir) of Inr entries \<Rightarrow> entries \<noteq> [] | Inl err \<Rightarrow> False)
      \<and> (case os_Open t (keyFilePath dir) of
            Inr keyFile \<Rightarrow>
              (case io_ReadAll keyFile of
                 Inr keyData \<Rightarrow> hex_EncodeToString k = strings_TrimSpace (string_of_bytes keyData)
               | Inl err \<Rightarrow> False)
          | Inl err \<Rightarrow> False))"


section \<open>Facts about the search and the scanner\<close>

lemma bytes_Index_noneI:
  assumes "sep \<noteq> []" "\<And>i. i + length sep \<le> length s \<Longrightarrow> \<not> prefix sep (drop i s)"
  shows "bytes_Index s sep = None"
  using assms
proof (induction s)
  case Nil
  then show ?case by simp
next
  case (Cons x xs)
  have a: "\<not> prefix sep (x # xs)"
  proof
    assume p: "prefix sep (x # xs)"
    then have "length sep \<le> length (x # xs)" by (rule prefix_length_le)
    then show False using Cons.prems(2)[of 0] p by simp
  qed
  have b: "bytes_Index xs sep = None"
  proof (rule Cons.IH[OF Cons.prems(1)])
    fix i assume "i + length sep \<le> length xs"
    then show "\<not> prefix sep (drop i xs)" using Cons.prems(2)[of "Suc i"] by simp
  qed
  show ?case using a b by simp
qed

lemma bytes_Index_short: "length s < length sep \<Longrightarrow> bytes_Index s sep = None"
  by (rule bytes_Index_noneI) auto

lemma bytes_Index_no_head:
  assumes "sep \<noteq> []" "\<And>i. i + length sep \<le> length s \<Longrightarrow> s ! i \<noteq> hd sep"
  shows "bytes_Index s sep = None"
proof (rule bytes_Index_noneI[OF assms(1)])
  fix i assume le: "i + length sep \<le> length s"
  show "\<not> prefix sep (drop i s)"
  proof
    assume "prefix sep (drop i s)"
    then obtain r where "drop i s = sep @ r" by (auto simp: prefix_def)
    then have "hd (drop i s) = hd sep" using assms(1) by simp
    moreover have "i < length s" using le assms(1) by (cases sep) auto
    ultimately have "s ! i = hd sep" by (simp add: hd_drop_conv_nth)
    then show False using assms(2)[OF le] by simp
  qed
qed

lemma bytes_Index_SomeD:
  "bytes_Index s sep = Some i \<Longrightarrow> prefix sep (drop i s) \<and> i \<le> length s \<and> (\<forall>j<i. \<not> prefix sep (drop j s))"
proof (induction s arbitrary: i)
  case Nil
  then show ?case by (auto split: if_splits)
next
  case (Cons x xs)
  show ?case
  proof (cases "prefix sep (x # xs)")
    case True
    then show ?thesis using Cons.prems by simp
  next
    case False
    then obtain k where k: "bytes_Index xs sep = Some k" "i = Suc k" using Cons.prems by auto
    from Cons.IH[OF k(1)] have ih: "prefix sep (drop k xs)" "k \<le> length xs" "\<forall>j<k. \<not> prefix sep (drop j xs)" by auto
    have "\<forall>j<Suc k. \<not> prefix sep (drop j (x # xs))"
    proof (intro allI impI)
      fix j assume "j < Suc k"
      then show "\<not> prefix sep (drop j (x # xs))" using False ih(3) by (cases j) auto
    qed
    then show ?thesis using ih k by simp
  qed
qed

lemma bytes_Index_SomeI:
  "prefix sep (drop i s) \<Longrightarrow> i \<le> length s \<Longrightarrow> (\<And>j. j < i \<Longrightarrow> \<not> prefix sep (drop j s)) \<Longrightarrow> bytes_Index s sep = Some i"
proof (induction s arbitrary: i)
  case Nil
  then show ?case by auto
next
  case (Cons x xs)
  show ?case
  proof (cases i)
    case 0
    then show ?thesis using Cons.prems by simp
  next
    case (Suc k)
    have n0: "\<not> prefix sep (x # xs)" using Cons.prems(3)[of 0] Suc by simp
    have "bytes_Index xs sep = Some k"
    proof (rule Cons.IH)
      show "prefix sep (drop k xs)" using Cons.prems(1) Suc by simp
      show "k \<le> length xs" using Cons.prems(2) Suc by simp
      fix j assume "j < k" then show "\<not> prefix sep (drop j xs)" using Cons.prems(3)[of "Suc j"] Suc by simp
    qed
    then show ?thesis using n0 Suc by simp
  qed
qed

lemma length_generateBoundary: "length generateBoundary = 64"
  by (simp add: generateBoundary_def)

lemma hd_generateBoundary: "hd generateBoundary = 41"
  by (simp add: generateBoundary_def)

lemma generateBoundary_nonempty: "generateBoundary \<noteq> []"
  by (simp add: generateBoundary_def)

lemma placeholder_is_sentinel: "LittleEndian_Uint64 sizePlaceholder = sentinelSize"
  by (simp add: LittleEndian_Uint64_def sizePlaceholder_def sentinelSize_def)

lemma scanLoop_eof:
  "bad f = None \<Longrightarrow> length (content f) \<le> offset f \<Longrightarrow> scanLoop f off = (Ok (True, off), f)"
  by (subst scanLoop.simps) (simp add: file_Read_def)

lemma scanLoop_miss:
  assumes "bad f = None" "offset f < length (content f)"
    and "bytes_Index (take scanBlockSize (drop (offset f) (content f))) generateBoundary = None"
  shows "scanLoop f off =
           scanLoop (f\<lparr>offset := offset f + min scanBlockSize (length (content f) - offset f)\<rparr>)
             (off + scanBlockSize)"
  using assms by (subst scanLoop.simps) (simp add: file_Read_def Let_def min.commute)

lemma scanLoop_hit:
  assumes "bad f = None" "offset f < length (content f)"
    and "bytes_Index (take scanBlockSize (drop (offset f) (content f))) generateBoundary = Some b"
  shows "scanLoop f off =
           (Ok (False, off + b),
            f\<lparr>offset := offset f + min scanBlockSize (length (content f) - offset f)\<rparr>)"
  using assms by (subst scanLoop.simps) (simp add: file_Read_def Let_def min.commute)

text \<open>Blocks in which the marker's first byte does not occur are skipped whole.\<close>

lemma scanLoop_skip_blocks:
  assumes "bad f = None"
    and "offset f + k * scanBlockSize \<le> length (content f)"
    and "\<And>i. offset f \<le> i \<Longrightarrow> i < offset f + k * scanBlockSize \<Longrightarrow> content f ! i \<noteq> hd generateBoundary"
  shows "scanLoop f off =
           scanLoop (f\<lparr>offset := offset f + k * scanBlockSize\<rparr>) (off + k * scanBlockSize)"
  using assms
proof (induction k arbitrary: f off)
  case 0
  then show ?case by simp
next
  case (Suc k)
  have pos: "0 < scanBlockSize" by (simp add: scanBlockSize_def)
  have lt: "offset f < length (content f)" using Suc.prems(2) pos by simp
  have full: "min scanBlockSize (length (content f) - offset f) = scanBlockSize"
    using Suc.prems(2) by simp
  have miss: "bytes_Index (take scanBlockSize (drop (offset f) (content f))) generateBoundary = None"
  proof (rule bytes_Index_no_head[OF generateBoundary_nonempty])
    fix i assume "i + length generateBoundary \<le> length (take scanBlockSize (drop (offset f) (content f)))"
    then have i: "i < scanBlockSize" "offset f + i < length (content f)"
      by (auto simp: length_generateBoundary)
    then have "take scanBlockSize (drop (offset f) (content f)) ! i = content f ! (offset f + i)"
      by simp
    moreover have "content f ! (offset f + i) \<noteq> hd generateBoundary"
      using Suc.prems(3)[of "offset f + i"] i by simp
    ultimately show "take scanBlockSize (drop (offset f) (content f)) ! i \<noteq> hd generateBoundary"
      by simp
  qed
  let ?f' = "f\<lparr>offset := offset f + scanBlockSize\<rparr>"
  have step: "scanLoop f off = scanLoop ?f' (off + scanBlockSize)"
    using scanLoop_miss[OF Suc.prems(1) lt miss, of off] full by simp
  have "scanLoop ?f' (off + scanBlockSize) =
          scanLoop (?f'\<lparr>offset := offset ?f' + k * scanBlockSize\<rparr>) (off + scanBlockSize + k * scanBlockSize)"
  proof (rule Suc.IH)
    show "bad ?f' = None" using Suc.prems(1) by simp
    show "offset ?f' + k * scanBlockSize \<le> length (content ?f')" using Suc.prems(2) by simp
    fix i assume "offset ?f' \<le> i" "i < offset ?f' + k * scanBlockSize"
    then show "content ?f' ! i \<noteq> hd generateBoundary" using Suc.prems(3)[of i] by simp
  qed
  moreover have "offset ?f' + k * scanBlockSize = offset f + Suc k * scanBlockSize"
    "off + scanBlockSize + k * scanBlockSize = off + Suc k * scanBlockSize" by simp_all
  ultimately show ?case using step by (simp add: add.assoc)
qed

lemma length_sizePlaceholder: "length sizePlaceholder = 8"
  by (simp add: sizePlaceholder_def)

lemma bytes_Index_prefix: "prefix sep s \<Longrightarrow> bytes_Index s sep = Some 0"
  by (cases s) auto

lemma le_bytes_numeral:
  "le_bytes (numeral k) v = word_of_nat (v mod 256) # le_bytes (pred_numeral k) (v div 256)"
  by (subst numeral_eq_Suc) simp

lemma PutUint64_4: "LittleEndian_PutUint64 4 = [4, 0, 0, 0, 0, 0, 0, 0]"
  by (simp add: LittleEndian_PutUint64_def le_bytes_numeral)

lemma scanLoop_content: "scanLoop f off = (r, f') \<Longrightarrow> content f' = content f \<and> bad f' = bad f"
proof (induction f off arbitrary: r f' rule: scanLoop.induct)
  case (1 self bdyOff)
  show ?case
  proof (cases "file_Read scanBlockSize self")
    case (Pair rr s')
    have s': "content s' = content self \<and> bad s' = bad self"
      using Pair by (auto simp: file_Read_def Let_def split: if_splits)
    show ?thesis
    proof (cases rr)
      case (Data blk)
      show ?thesis
      proof (cases "bytes_Index blk generateBoundary")
        case None
        then have "scanLoop self bdyOff = scanLoop s' (bdyOff + scanBlockSize)"
          using Pair Data by (subst scanLoop.simps) simp
        then have "scanLoop s' (bdyOff + scanBlockSize) = (r, f')" using "1.prems" by simp
        from "1.IH"[OF Pair[symmetric] Data None this] s' show ?thesis by simp
      next
        case (Some a)
        then have "scanLoop self bdyOff = (Ok (False, bdyOff + a), s')"
          using Pair Data by (subst scanLoop.simps) simp
        then show ?thesis using "1.prems" s' by simp
      qed
    next
      case EOF
      then have "scanLoop self bdyOff = (Ok (True, bdyOff), s')"
        using Pair by (subst scanLoop.simps) simp
      then show ?thesis using "1.prems" s' by simp
    next
      case IOError
      then have "scanLoop self bdyOff = (Fatal ''reading itself:'', s')"
        using Pair by (subst scanLoop.simps) simp
      then show ?thesis using "1.prems" s' by simp
    qed
  qed
qed

lemma straddling_scan:
  "scanLoop (openFile straddlingExe) 0 =
     (Ok (True, 2 * scanBlockSize), \<lparr>content = straddlingExe, offset = 131132, bad = None\<rparr>)"
proof -
  let ?f0 = "openFile straddlingExe"
  have len: "length straddlingExe = 131132"
    by (simp add: straddlingExe_def length_generateBoundary PutUint64_4)
  have m1: "bytes_Index (take scanBlockSize (drop (offset ?f0) (content ?f0))) generateBoundary = None"
  proof (rule bytes_Index_no_head[OF generateBoundary_nonempty])
    fix i assume "i + length generateBoundary \<le> length (take scanBlockSize (drop (offset ?f0) (content ?f0)))"
    then have "i < 131040" by (simp add: length_generateBoundary scanBlockSize_def openFile_def len)
    then show "take scanBlockSize (drop (offset ?f0) (content ?f0)) ! i \<noteq> hd generateBoundary"
      by (simp add: openFile_def scanBlockSize_def straddlingExe_def nth_append hd_generateBoundary)
  qed
  let ?f1 = "?f0\<lparr>offset := offset ?f0 + min scanBlockSize (length (content ?f0) - offset ?f0)\<rparr>"
  have s1: "scanLoop ?f0 0 = scanLoop ?f1 (0 + scanBlockSize)"
    by (rule scanLoop_miss[OF _ _ m1]) (simp_all add: openFile_def len)
  have f1: "?f1 = \<lparr>content = straddlingExe, offset = 131072, bad = None\<rparr>"
    by (simp add: openFile_def len scanBlockSize_def)
  let ?g = "\<lparr>content = straddlingExe, offset = 131072, bad = None\<rparr>"
  have m2: "bytes_Index (take scanBlockSize (drop (offset ?g) (content ?g))) generateBoundary = None"
    by (rule bytes_Index_short) (simp add: len length_generateBoundary)
  have s2: "scanLoop ?g (0 + scanBlockSize) =
      scanLoop (?g\<lparr>offset := offset ?g + min scanBlockSize (length (content ?g) - offset ?g)\<rparr>) (0 + scanBlockSize + scanBlockSize)"
    by (rule scanLoop_miss[OF _ _ m2]) (simp_all add: len)
  have g2: "?g\<lparr>offset := offset ?g + min scanBlockSize (length (content ?g) - offset ?g)\<rparr>
      = \<lparr>content = straddlingExe, offset = 131132, bad = None\<rparr>"
    by (simp add: len scanBlockSize_def)
  have s3: "scanLoop \<lparr>content = straddlingExe, offset = 131132, bad = None\<rparr> (0 + scanBlockSize + scanBlockSize)
      = (Ok (True, 0 + scanBlockSize + scanBlockSize), \<lparr>content = straddlingExe, offset = 131132, bad = None\<rparr>)"
    by (rule scanLoop_eof) (simp_all add: len)
  show ?thesis using s1 f1 s2 g2 s3 by simp
qed

text \<open>
  Claim C1 says that a marker inside the scanned region is found whatever its alignment to the
  128 KiB reads. The loop searches each block on its own: \<^verbatim>\<open>bytes.Index(buf[:n], boundary)\<close> sees
  nothing of the previous block. In \<open>straddlingExe\<close> the marker starts at offset 131040 and its
  second half lies in the second block; the scanner reads to end of file and returns
  \<^verbatim>\<open>(nil, nil)\<close>, although the marker is there, far below the ceiling.
\<close>

theorem C1_straddling_marker_is_missed:
  "prefix generateBoundary (drop 131040 straddlingExe)
   \<and> 131040 + length generateBoundary \<le> maxBoundaryOffset
   \<and> parseSelf (openFile straddlingExe)
       = (Ok NoPayload, \<lparr>content = straddlingExe, offset = length straddlingExe, bad = None\<rparr>)"
proof -
  have "prefix generateBoundary (drop 131040 straddlingExe)"
    by (simp add: straddlingExe_def)
  moreover have "131040 + length generateBoundary \<le> maxBoundaryOffset"
    by (simp add: length_generateBoundary maxBoundaryOffset_def)
  moreover have "length straddlingExe = 131132"
    by (simp add: straddlingExe_def length_generateBoundary PutUint64_4)
  ultimately show ?thesis
    by (simp add: parseSelf_def straddling_scan)
qed

lemma huge_scan:
  "scanLoop (openFile hugeNoMarker) 0 =
     (Ok (True, 800 * scanBlockSize), \<lparr>content = hugeNoMarker, offset = 800 * scanBlockSize, bad = None\<rparr>)"
proof -
  let ?f0 = "openFile hugeNoMarker"
  have "scanLoop ?f0 0 = scanLoop (?f0\<lparr>offset := offset ?f0 + 800 * scanBlockSize\<rparr>) (0 + 800 * scanBlockSize)"
  proof (rule scanLoop_skip_blocks)
    show "bad ?f0 = None" by (simp add: openFile_def)
    show "offset ?f0 + 800 * scanBlockSize \<le> length (content ?f0)"
      by (simp add: openFile_def hugeNoMarker_def)
    fix i assume "offset ?f0 \<le> i" "i < offset ?f0 + 800 * scanBlockSize"
    then show "content ?f0 ! i \<noteq> hd generateBoundary"
      by (simp add: openFile_def hugeNoMarker_def hd_generateBoundary)
  qed
  moreover have "scanLoop (?f0\<lparr>offset := offset ?f0 + 800 * scanBlockSize\<rparr>) (0 + 800 * scanBlockSize)
      = (Ok (True, 0 + 800 * scanBlockSize), ?f0\<lparr>offset := offset ?f0 + 800 * scanBlockSize\<rparr>)"
    by (rule scanLoop_eof) (simp_all add: openFile_def hugeNoMarker_def)
  ultimately show ?thesis by (simp add: openFile_def)
qed

text \<open>
  Claim C2 says that the scan of a file without the marker stops once the bytes scanned exceed
  \<^verbatim>\<open>maxBoundaryOffset\<close>. The constant is declared and documented but the loop never reads it:
  the only exit without a match is end of file. On the 100 MiB file \<open>hugeNoMarker\<close>, which
  holds no marker, the scanner consumes every byte: the handle ends at the file's length,
  more than a block beyond the ceiling.
\<close>

theorem C2_scan_runs_past_ceiling:
  "bytes_Index hugeNoMarker generateBoundary = None
   \<and> length hugeNoMarker = 104857600
   \<and> maxBoundaryOffset + scanBlockSize < length hugeNoMarker
   \<and> parseSelf (openFile hugeNoMarker)
       = (Ok NoPayload, \<lparr>content = hugeNoMarker, offset = length hugeNoMarker, bad = None\<rparr>)"
proof -
  have "bytes_Index hugeNoMarker generateBoundary = None"
    by (rule bytes_Index_no_head[OF generateBoundary_nonempty])
       (simp add: hugeNoMarker_def hd_generateBoundary length_generateBoundary)
  moreover have "length hugeNoMarker = 104857600"
    by (simp add: hugeNoMarker_def scanBlockSize_def)
  moreover have "maxBoundaryOffset + scanBlockSize < length hugeNoMarker"
    by (simp add: hugeNoMarker_def scanBlockSize_def maxBoundaryOffset_def)
  moreover have "parseSelf (openFile hugeNoMarker)
       = (Ok NoPayload, \<lparr>content = hugeNoMarker, offset = length hugeNoMarker, bad = None\<rparr>)"
    by (simp add: parseSelf_def huge_scan) (simp add: hugeNoMarker_def)
  ultimately show ?thesis by simp
qed


text \<open>
  When the search has located the marker at \<open>b\<close> and the eight bytes after the key decode to
  \<^verbatim>\<open>0xdeadbeefdeadbeef\<close>, \<^verbatim>\<open>parseSelf\<close> ends in \<^verbatim>\<open>die\<close>: no reader is returned, and the handle
  stands right after the trailer, so nothing was read through a payload reader. The
  placeholder that \<^verbatim>\<open>create\<close> writes before patching decodes to exactly that value.
\<close>

lemma sentinel_length_is_fatal_when_located:
  assumes "bad self = None"
    and "scanLoop self 0 = (Ok (False, b), s1)"
    and "b + length generateBoundary + keyLength + 8 \<le> length (content self)"
    and "LittleEndian_Uint64 (take 8 (drop (b + length generateBoundary + keyLength) (content self)))
           = sentinelSize"
  shows "parseSelf self =
           (Fatal ''Invalid archive size.'', s1\<lparr>offset := b + length generateBoundary + keyLength + 8\<rparr>)
         \<and> LittleEndian_Uint64 sizePlaceholder = sentinelSize"
proof -
  have c: "content s1 = content self" "bad s1 = None"
    using scanLoop_content[OF assms(2)] assms(1) by simp_all
  let ?s = "file_Seek (b + length generateBoundary) s1"
  let ?d = "take (keyLength + 8) (drop (b + length generateBoundary) (content self))"
  have ld: "length ?d = keyLength + 8" using assms(3) by simp
  have rd: "file_Read (keyLength + 8) ?s = (Data ?d, s1\<lparr>offset := b + length generateBoundary + keyLength + 8\<rparr>)"
    using assms(3) c by (simp add: file_Read_def file_Seek_def Let_def min_def keyLength_def add.assoc)
  have raw: "take 8 (drop keyLength ?d) = take 8 (drop (b + length generateBoundary + keyLength) (content self))"
    by (simp add: drop_take keyLength_def ac_simps)
  show ?thesis
    using assms(4) ld raw
    by (simp add: parseSelf_def assms(2) rd Let_def placeholder_is_sentinel)
qed

text \<open>The lemma at a file that holds the marker, a key and the unpatched placeholder.\<close>

lemma sentinel_length_is_fatal_example:
  "parseSelf (openFile unpatchedExe) =
     (Fatal ''Invalid archive size.'', \<lparr>content = unpatchedExe, offset = 88, bad = None\<rparr>)"
proof -
  let ?f = "openFile unpatchedExe"
  have len: "length unpatchedExe = 91"
    by (simp add: unpatchedExe_def length_generateBoundary length_sizePlaceholder)
  have hit: "bytes_Index (take scanBlockSize (drop (offset ?f) (content ?f))) generateBoundary = Some 0"
    by (rule bytes_Index_prefix) (simp add: openFile_def unpatchedExe_def scanBlockSize_def length_generateBoundary)
  have scan: "scanLoop ?f 0 = (Ok (False, 0), \<lparr>content = unpatchedExe, offset = 91, bad = None\<rparr>)"
    using scanLoop_hit[OF _ _ hit, of 0] by (simp add: openFile_def len scanBlockSize_def)
  have raw: "LittleEndian_Uint64 (take 8 (drop (0 + length generateBoundary + keyLength) (content ?f))) = sentinelSize"
    by (simp add: openFile_def unpatchedExe_def length_generateBoundary keyLength_def
          placeholder_is_sentinel length_sizePlaceholder)
  show ?thesis
    using sentinel_length_is_fatal_when_located[OF _ scan _ raw]
    by (simp add: openFile_def len length_generateBoundary keyLength_def)
qed

lemma unpatched_straddling_scan:
  "scanLoop (openFile unpatchedStraddlingExe) 0 =
     (Ok (True, 2 * scanBlockSize), \<lparr>content = unpatchedStraddlingExe, offset = 131132, bad = None\<rparr>)"
proof -
  let ?f0 = "openFile unpatchedStraddlingExe"
  have len: "length unpatchedStraddlingExe = 131132"
    by (simp add: unpatchedStraddlingExe_def length_generateBoundary length_sizePlaceholder)
  have m1: "bytes_Index (take scanBlockSize (drop (offset ?f0) (content ?f0))) generateBoundary = None"
  proof (rule bytes_Index_no_head[OF generateBoundary_nonempty])
    fix i assume "i + length generateBoundary \<le> length (take scanBlockSize (drop (offset ?f0) (content ?f0)))"
    then have "i < 131040" by (simp add: length_generateBoundary scanBlockSize_def openFile_def len)
    then show "take scanBlockSize (drop (offset ?f0) (content ?f0)) ! i \<noteq> hd generateBoundary"
      by (simp add: openFile_def scanBlockSize_def unpatchedStraddlingExe_def nth_append hd_generateBoundary)
  qed
  let ?f1 = "?f0\<lparr>offset := offset ?f0 + min scanBlockSize (length (content ?f0) - offset ?f0)\<rparr>"
  have s1: "scanLoop ?f0 0 = scanLoop ?f1 (0 + scanBlockSize)"
    by (rule scanLoop_miss[OF _ _ m1]) (simp_all add: openFile_def len)
  have f1: "?f1 = \<lparr>content = unpatchedStraddlingExe, offset = 131072, bad = None\<rparr>"
    by (simp add: openFile_def len scanBlockSize_def)
  let ?g = "\<lparr>content = unpatchedStraddlingExe, offset = 131072, bad = None\<rparr>"
  have m2: "bytes_Index (take scanBlockSize (drop (offset ?g) (content ?g))) generateBoundary = None"
    by (rule bytes_Index_short) (simp add: len length_generateBoundary)
  have s2: "scanLoop ?g (0 + scanBlockSize) =
      scanLoop (?g\<lparr>offset := offset ?g + min scanBlockSize (length (content ?g) - offset ?g)\<rparr>) (0 + scanBlockSize + scanBlockSize)"
    by (rule scanLoop_miss[OF _ _ m2]) (simp_all add: len)
  have g2: "?g\<lparr>offset := offset ?g + min scanBlockSize (length (content ?g) - offset ?g)\<rparr>
      = \<lparr>content = unpatchedStraddlingExe, offset = 131132, bad = None\<rparr>"
    by (simp add: len scanBlockSize_def)
  have s3: "scanLoop \<lparr>content = unpatchedStraddlingExe, offset = 131132, bad = None\<rparr> (0 + scanBlockSize + scanBlockSize)
      = (Ok (True, 0 + scanBlockSize + scanBlockSize), \<lparr>content = unpatchedStraddlingExe, offset = 131132, bad = None\<rparr>)"
    by (rule scanLoop_eof) (simp_all add: len)
  show ?thesis using s1 f1 s2 g2 s3 by simp
qed

text \<open>
  Claim C7 says that every input whose length field decodes to the sentinel makes \<^verbatim>\<open>parseSelf\<close>
  end in \<^verbatim>\<open>die\<close>. Where the search locates the marker it does
  (\<open>sentinel_length_is_fatal_when_located\<close>). Where the search misses the marker, by the defect
  of claim C1, it does not: in \<open>unpatchedStraddlingExe\<close> the marker starts at offset 131040,
  the eight bytes after the key are the placeholder and decode to the sentinel, and
  \<^verbatim>\<open>parseSelf\<close> returns \<^verbatim>\<open>(nil, nil)\<close>: the unpatched build is not reported, the program goes on as
  the bare builder.
\<close>

theorem C7_unpatched_straddling_archive_is_not_rejected:
  "prefix generateBoundary (drop 131040 unpatchedStraddlingExe)
   \<and> LittleEndian_Uint64 (take 8 (drop (131040 + length generateBoundary + keyLength) unpatchedStraddlingExe))
       = sentinelSize
   \<and> parseSelf (openFile unpatchedStraddlingExe)
       = (Ok NoPayload, \<lparr>content = unpatchedStraddlingExe, offset = length unpatchedStraddlingExe, bad = None\<rparr>)"
proof -
  have "prefix generateBoundary (drop 131040 unpatchedStraddlingExe)"
    by (simp add: unpatchedStraddlingExe_def)
  moreover have "LittleEndian_Uint64 (take 8 (drop (131040 + length generateBoundary + keyLength) unpatchedStraddlingExe))
       = sentinelSize"
    by (simp add: unpatchedStraddlingExe_def length_generateBoundary keyLength_def
          length_sizePlaceholder placeholder_is_sentinel)
  moreover have "length unpatchedStraddlingExe = 131132"
    by (simp add: unpatchedStraddlingExe_def length_generateBoundary length_sizePlaceholder)
  ultimately show ?thesis
    by (simp add: parseSelf_def unpatched_straddling_scan)
qed

section \<open>Markers that the scanner does find\<close>

lemma prefix_in_block:
  assumes "prefix sep (drop i (take n (drop off c)))"
  shows "prefix sep (drop (off + i) c)"
proof -
  let ?x = "drop off c"
  have "drop i ?x = drop i (take n ?x @ drop n ?x)" by (simp only: append_take_drop_id)
  also have "\<dots> = drop i (take n ?x) @ drop (i - length (take n ?x)) (drop n ?x)"
    by (rule drop_append)
  finally have "prefix (drop i (take n ?x)) (drop i ?x)" by (metis prefixI)
  with assms have "prefix sep (drop i ?x)" by (rule prefix_order.trans)
  then show ?thesis by (simp add: add.commute)
qed

lemma prefix_into_block:
  assumes "prefix sep (drop (off + i) c)" and "i + length sep \<le> n"
  shows "prefix sep (drop i (take n (drop off c)))"
proof -
  from assms(1) obtain r where r: "drop (off + i) c = sep @ r" by (auto simp: prefix_def)
  have "drop i (take n (drop off c)) = take (n - i) (drop (off + i) c)"
    by (simp add: drop_take add.commute)
  also have "\<dots> = sep @ take (n - i - length sep) r"
    using assms(2) by (simp add: r)
  finally show ?thesis by (metis prefixI)
qed

text \<open>
  A marker whose first occurrence lies within one block is found: the search skips the blocks
  before it and hits in its block.
\<close>

lemma first_occurrence_fits:
  assumes "bytes_Index c sep = Some b"
  shows "b + length sep \<le> length c"
proof -
  from bytes_Index_SomeD[OF assms] have "prefix sep (drop b c)" "b \<le> length c" by simp_all
  then have "length sep \<le> length c - b" by (auto dest: prefix_length_le)
  then show ?thesis using \<open>b \<le> length c\<close> by simp
qed

lemma scanLoop_finds_first:
  assumes "bytes_Index (content f) generateBoundary = Some b"
    and "b mod scanBlockSize + length generateBoundary \<le> scanBlockSize"
    and "bad f = None"
    and "offset f = j * scanBlockSize" and "j * scanBlockSize \<le> b"
  shows "scanLoop f (j * scanBlockSize) =
           (Ok (False, b),
            f\<lparr>offset := min (length (content f)) ((b div scanBlockSize + 1) * scanBlockSize)\<rparr>)"
  using assms
proof (induction "b div scanBlockSize - j" arbitrary: f j)
  case 0
  note first = bytes_Index_SomeD[OF "0.prems"(1)]
  have pos: "0 < scanBlockSize" by (simp add: scanBlockSize_def)
  have "j \<le> b div scanBlockSize"
    using "0.prems"(5) pos by (simp add: less_eq_div_iff_mult_less_eq)
  with "0.hyps" have j: "j = b div scanBlockSize" by simp
  then have b: "b = offset f + b mod scanBlockSize" using "0.prems"(4) by simp
  have len: "b + length generateBoundary \<le> length (content f)"
    by (rule first_occurrence_fits[OF "0.prems"(1)])
  have lt: "offset f < length (content f)" using b len by (simp add: length_generateBoundary)
  have hit: "bytes_Index (take scanBlockSize (drop (offset f) (content f))) generateBoundary
               = Some (b mod scanBlockSize)"
  proof (rule bytes_Index_SomeI)
    have "prefix generateBoundary (drop (offset f + b mod scanBlockSize) (content f))"
      using first b by simp
    then show "prefix generateBoundary (drop (b mod scanBlockSize) (take scanBlockSize (drop (offset f) (content f))))"
      by (rule prefix_into_block) (rule "0.prems"(2))
    show "b mod scanBlockSize \<le> length (take scanBlockSize (drop (offset f) (content f)))"
      using b len "0.prems"(2) by (simp add: length_generateBoundary)
    fix i assume i: "i < b mod scanBlockSize"
    show "\<not> prefix generateBoundary (drop i (take scanBlockSize (drop (offset f) (content f))))"
    proof
      assume "prefix generateBoundary (drop i (take scanBlockSize (drop (offset f) (content f))))"
      then have "prefix generateBoundary (drop (offset f + i) (content f))" by (rule prefix_in_block)
      moreover have "offset f + i < b" using i b by simp
      ultimately show False using first by blast
    qed
  qed
  have off: "offset f + min scanBlockSize (length (content f) - offset f)
             = min (length (content f)) ((b div scanBlockSize + 1) * scanBlockSize)"
  proof -
    have "offset f + min scanBlockSize (length (content f) - offset f)
            = min (length (content f)) (offset f + scanBlockSize)"
      using lt by arith
    moreover have "(b div scanBlockSize + 1) * scanBlockSize = offset f + scanBlockSize"
      using "0.prems"(4) j by simp
    ultimately show ?thesis by simp
  qed
  have res: "j * scanBlockSize + b mod scanBlockSize = b" using b "0.prems"(4) by simp
  show ?case
    using scanLoop_hit[OF "0.prems"(3) lt hit, of "j * scanBlockSize"] by (simp only: off res)
next
  case (Suc n)
  note first = bytes_Index_SomeD[OF Suc.prems(1)]
  have pos: "0 < scanBlockSize" by (simp add: scanBlockSize_def)
  have jl: "Suc j \<le> b div scanBlockSize" using Suc.hyps(2) by simp
  then have next_le: "Suc j * scanBlockSize \<le> b"
    using pos by (simp add: less_eq_div_iff_mult_less_eq)
  have len: "b + length generateBoundary \<le> length (content f)"
    by (rule first_occurrence_fits[OF Suc.prems(1)])
  have full: "offset f + scanBlockSize \<le> length (content f)"
    using next_le len Suc.prems(4) by simp
  then have lt: "offset f < length (content f)" using pos by simp
  have miss: "bytes_Index (take scanBlockSize (drop (offset f) (content f))) generateBoundary = None"
  proof (rule bytes_Index_noneI[OF generateBoundary_nonempty])
    fix i assume "i + length generateBoundary \<le> length (take scanBlockSize (drop (offset f) (content f)))"
    then have i: "i < scanBlockSize" by (simp add: length_generateBoundary)
    show "\<not> prefix generateBoundary (drop i (take scanBlockSize (drop (offset f) (content f))))"
    proof
      assume "prefix generateBoundary (drop i (take scanBlockSize (drop (offset f) (content f))))"
      then have "prefix generateBoundary (drop (offset f + i) (content f))" by (rule prefix_in_block)
      moreover have "offset f + i < b" using i next_le Suc.prems(4) by simp
      ultimately show False using first by blast
    qed
  qed
  let ?f' = "f\<lparr>offset := offset f + min scanBlockSize (length (content f) - offset f)\<rparr>"
  have f': "?f' = f\<lparr>offset := Suc j * scanBlockSize\<rparr>"
    using full Suc.prems(4) by (simp add: min_def)
  have step: "scanLoop f (j * scanBlockSize) = scanLoop (f\<lparr>offset := Suc j * scanBlockSize\<rparr>) (Suc j * scanBlockSize)"
    using scanLoop_miss[OF Suc.prems(3) lt miss, of "j * scanBlockSize"] by (simp add: f' add.commute)
  have "scanLoop (f\<lparr>offset := Suc j * scanBlockSize\<rparr>) (Suc j * scanBlockSize) =
          (Ok (False, b),
           (f\<lparr>offset := Suc j * scanBlockSize\<rparr>)\<lparr>offset := min (length (content (f\<lparr>offset := Suc j * scanBlockSize\<rparr>)))
                 ((b div scanBlockSize + 1) * scanBlockSize)\<rparr>)"
  proof (rule Suc.hyps(1))
    show "n = b div scanBlockSize - Suc j" using Suc.hyps(2) by simp
    show "bytes_Index (content (f\<lparr>offset := Suc j * scanBlockSize\<rparr>)) generateBoundary = Some b"
      using Suc.prems(1) by simp
    show "b mod scanBlockSize + length generateBoundary \<le> scanBlockSize" by (rule Suc.prems(2))
    show "bad (f\<lparr>offset := Suc j * scanBlockSize\<rparr>) = None" using Suc.prems(3) by simp
    show "offset (f\<lparr>offset := Suc j * scanBlockSize\<rparr>) = Suc j * scanBlockSize" by simp
    show "Suc j * scanBlockSize \<le> b" by (rule next_le)
  qed
  then show ?case using step by simp
qed

lemma le_value_le_bytes: "le_value (le_bytes n v) = v mod 256 ^ n"
proof (induction n arbitrary: v)
  case 0
  then show ?case by simp
next
  case (Suc n)
  have "unat (word_of_nat (v mod 256) :: byte) = v mod 256"
    by (simp add: unat_of_nat)
  then have "le_value (le_bytes (Suc n) v) = v mod 256 + 256 * (v div 256 mod 256 ^ n)"
    by (simp add: Suc)
  also have "\<dots> = v mod (256 * 256 ^ n)" by (simp add: mod_mult2_eq)
  finally show ?case by simp
qed

lemma length_le_bytes: "length (le_bytes k v) = k"
  by (induction k arbitrary: v) auto

lemma Uint64_PutUint64: "LittleEndian_Uint64 (LittleEndian_PutUint64 w) = w"
proof -
  have "unat w < 2 ^ LENGTH(64)" by (rule unsigned_less)
  then have "unat w < 256 ^ 8" by simp
  then show ?thesis
    by (simp add: LittleEndian_Uint64_def LittleEndian_PutUint64_def length_le_bytes le_value_le_bytes)
qed

lemma payload_size_value:
  assumes "n < 2 ^ 63"
  shows "sint (word_of_nat n :: 64 word) = int n" and "(word_of_nat n :: 64 word) \<noteq> sentinelSize"
proof -
  have u: "unat (word_of_nat n :: 64 word) = n" using assms by (simp add: unat_of_nat)
  show "sint (word_of_nat n :: 64 word) = int n"
  proof -
    have "signed_take_bit 63 (int n) = int n"
      by (rule signed_take_bit_int_eq_self) (use assms in simp_all)
    then show ?thesis by (simp add: signed_of_nat)
  qed
  show "(word_of_nat n :: 64 word) \<noteq> sentinelSize"
  proof
    assume "(word_of_nat n :: 64 word) = sentinelSize"
    then have "unat (word_of_nat n :: 64 word) = unat sentinelSize" by simp
    then show False using u assms by (simp add: sentinelSize_def)
  qed
qed

text \<open>
  The scanner on a file laid out as the builder writes it: when the appended marker is the first
  occurrence and lies within one block, \<^verbatim>\<open>parseSelf\<close> returns the key and a reader that yields
  exactly the payload.
\<close>

lemma parseSelf_reads_back:
  assumes "content f = stub @ generateBoundary @ k @ LittleEndian_PutUint64 (word_of_nat (length pl)) @ pl"
    and "offset f = 0" and "bad f = None"
    and "length k = keyLength" and "length pl < 2 ^ 63"
    and "bytes_Index (content f) generateBoundary = Some (length stub)"
    and "length stub mod scanBlockSize + length generateBoundary \<le> scanBlockSize"
  shows "\<exists>f'. parseSelf f = (Ok (Payload (int (length pl)) k), f')
           \<and> offset f' = length stub + length generateBoundary + keyLength + 8
           \<and> limitReader_bytes f' (int (length pl)) = pl"
proof -
  let ?b = "length stub"
  let ?len = "LittleEndian_PutUint64 (word_of_nat (length pl))"
  obtain f1 where scan: "scanLoop f 0 = (Ok (False, ?b), f1)"
    using scanLoop_finds_first[OF assms(6,7,3), of 0] assms(2) by simp
  have c1: "content f1 = content f" "bad f1 = None"
    using scanLoop_content[OF scan] assms(3) by simp_all
  let ?s = "file_Seek (?b + length generateBoundary) f1"
  have l8: "length ?len = 8" by (simp add: LittleEndian_PutUint64_def length_le_bytes)
  have d: "take (keyLength + 8) (drop (?b + length generateBoundary) (content f)) = k @ ?len"
    using assms(4) l8 by (simp add: assms(1))
  let ?f2 = "f1\<lparr>offset := ?b + length generateBoundary + keyLength + 8\<rparr>"
  have rd: "file_Read (keyLength + 8) ?s = (Data (k @ ?len), ?f2)"
    using assms(4) l8 d c1
    by (simp add: file_Read_def file_Seek_def Let_def assms(1) add.assoc)
  have raw: "LittleEndian_Uint64 (take 8 (drop keyLength (k @ ?len))) = word_of_nat (length pl)"
    using assms(4) l8 by (simp add: Uint64_PutUint64)
  have key: "take keyLength (k @ ?len) = k" using assms(4) by simp
  have pad: "replicate (keyLength + 8 - length (k @ ?len)) (0::byte) = []"
    using assms(4) l8 by simp
  have p: "parseSelf f = (Ok (Payload (int (length pl)) k), ?f2)"
    using payload_size_value[OF assms(5)] assms(4) l8
    by (simp add: parseSelf_def scan rd Let_def Uint64_PutUint64)
  have "limitReader_bytes ?f2 (int (length pl)) = pl"
    using assms(4) l8 c1 by (simp add: limitReader_bytes_def assms(1))
  then show ?thesis using p by simp
qed

text \<open>
  The same bytes 32 bytes earlier: the marker ends where the first block ends, the scanner
  finds it and returns the key and a reader of the four payload bytes.
\<close>

lemma aligned_marker_is_found:
  "\<exists>f'. parseSelf (openFile alignedExe) = (Ok (Payload 4 (replicate 16 7)), f')
        \<and> limitReader_bytes f' 4 = [1, 2, 3, 4]"
proof -
  let ?pl = "[1, 2, 3, 4] :: byte list"
  have c: "content (openFile alignedExe) =
             replicate 131008 0 @ generateBoundary @ replicate 16 7
               @ LittleEndian_PutUint64 (word_of_nat (length ?pl)) @ ?pl"
    by (simp add: openFile_def alignedExe_def)
  have first: "bytes_Index (content (openFile alignedExe)) generateBoundary
                 = Some (length (replicate 131008 (0::byte)))"
  proof (rule bytes_Index_SomeI)
    show "prefix generateBoundary (drop (length (replicate 131008 (0::byte))) (content (openFile alignedExe)))"
      by (simp add: c)
    show "length (replicate 131008 (0::byte)) \<le> length (content (openFile alignedExe))"
      by (simp add: c)
    fix j assume j: "j < length (replicate 131008 (0::byte))"
    show "\<not> prefix generateBoundary (drop j (content (openFile alignedExe)))"
    proof
      assume "prefix generateBoundary (drop j (content (openFile alignedExe)))"
      then obtain r where r: "drop j (content (openFile alignedExe)) = generateBoundary @ r"
        by (auto simp: prefix_def)
      have "hd (drop j (content (openFile alignedExe))) = content (openFile alignedExe) ! j"
        using j by (intro hd_drop_conv_nth) (simp add: c)
      also have "\<dots> = 0" using j by (simp add: c nth_append)
      finally show False using r generateBoundary_nonempty by (simp add: hd_generateBoundary)
    qed
  qed
  have "\<exists>f'. parseSelf (openFile alignedExe) = (Ok (Payload (int (length ?pl)) (replicate 16 7)), f')
           \<and> offset f' = length (replicate 131008 (0::byte)) + length generateBoundary + keyLength + 8
           \<and> limitReader_bytes f' (int (length ?pl)) = ?pl"
    by (rule parseSelf_reads_back[OF c _ _ _ _ first])
       (simp_all add: openFile_def keyLength_def scanBlockSize_def length_generateBoundary)
  then show ?thesis by auto
qed

lemma marker_after_zeros:
  "bytes_Index (replicate n 0 @ generateBoundary @ r) generateBoundary = Some n"
proof (rule bytes_Index_SomeI)
  show "prefix generateBoundary (drop n (replicate n 0 @ generateBoundary @ r))" by simp
  show "n \<le> length (replicate n 0 @ generateBoundary @ r)" by simp
  fix j assume j: "j < n"
  show "\<not> prefix generateBoundary (drop j (replicate n 0 @ generateBoundary @ r))"
  proof
    assume "prefix generateBoundary (drop j (replicate n 0 @ generateBoundary @ r))"
    then obtain q where q: "drop j (replicate n 0 @ generateBoundary @ r) = generateBoundary @ q"
      by (auto simp: prefix_def)
    have "hd (drop j (replicate n 0 @ generateBoundary @ r)) = (replicate n 0 @ generateBoundary @ r) ! j"
      using j by (intro hd_drop_conv_nth) simp
    also have "\<dots> = 0" using j by (simp add: nth_append)
    finally show False using q generateBoundary_nonempty by (simp add: hd_generateBoundary)
  qed
qed

text \<open>
  The ceiling is not enforced for a file that holds a marker either: a marker at offset
  104857600, beyond \<^verbatim>\<open>maxBoundaryOffset\<close>, is found and its payload returned.
\<close>

lemma marker_beyond_ceiling_is_found:
  "maxBoundaryOffset < 800 * scanBlockSize
   \<and> (\<exists>f'. parseSelf (openFile lateMarkerExe) = (Ok (Payload 4 (replicate 16 7)), f')
          \<and> limitReader_bytes f' 4 = [1, 2, 3, 4])"
proof -
  let ?pl = "[1, 2, 3, 4] :: byte list"
  let ?stub = "replicate (800 * scanBlockSize) (0::byte)"
  have c: "content (openFile lateMarkerExe) =
             ?stub @ generateBoundary @ replicate 16 7
               @ LittleEndian_PutUint64 (word_of_nat (length ?pl)) @ ?pl"
    by (simp add: openFile_def lateMarkerExe_def)
  have first: "bytes_Index (content (openFile lateMarkerExe)) generateBoundary = Some (length ?stub)"
    unfolding c using marker_after_zeros[of "800 * scanBlockSize"] by simp
  have "\<exists>f'. parseSelf (openFile lateMarkerExe) = (Ok (Payload (int (length ?pl)) (replicate 16 7)), f')
           \<and> offset f' = length ?stub + length generateBoundary + keyLength + 8
           \<and> limitReader_bytes f' (int (length ?pl)) = ?pl"
    by (rule parseSelf_reads_back[OF c _ _ _ _ first])
       (simp_all add: openFile_def keyLength_def length_generateBoundary, simp add: scanBlockSize_def)
  moreover have "maxBoundaryOffset < 800 * scanBlockSize"
    by (simp add: maxBoundaryOffset_def scanBlockSize_def)
  ultimately show ?thesis by auto
qed

section \<open>Facts about the builder\<close>

lemma readToEnd_all:
  "bad f = None \<Longrightarrow> readToEnd f acc = Some (acc @ drop (offset f) (content f))"
proof (induction f acc rule: readToEnd.induct)
  case (1 self acc)
  show ?case
  proof (cases "length (content self) \<le> offset self")
    case True
    then show ?thesis using "1.prems" by (subst readToEnd.simps) (simp add: file_Read_def)
  next
    case False
    let ?d = "take copyBufferSize (drop (offset self) (content self))"
    let ?s = "self\<lparr>offset := offset self + length ?d\<rparr>"
    have rd: "file_Read copyBufferSize self = (Data ?d, ?s)"
      using False "1.prems" by (simp add: file_Read_def Let_def)
    have "readToEnd ?s (acc @ ?d) = Some ((acc @ ?d) @ drop (offset ?s) (content ?s))"
      by (rule "1.IH"[OF rd[symmetric] refl]) (simp add: "1.prems")
    moreover have "?d @ drop (offset ?s) (content ?s) = drop (offset self) (content self)"
    proof -
      have "drop (offset ?s) (content ?s) = drop (length ?d) (drop (offset self) (content self))"
        by (simp add: add.commute)
      moreover have "length ?d = min copyBufferSize (length (content self) - offset self)" by simp
      ultimately show ?thesis
        by (metis append_take_drop_id drop_all length_drop linorder_le_cases min_def take_all_iff append_Nil2)
    qed
    ultimately show ?thesis by (subst readToEnd.simps) (simp add: rd)
  qed
qed


lemma lookup_update:
  "p \<noteq> [] \<Longrightarrow> lookup (AList.update p v t) q = (if q = p then Some v else lookup t q)"
  by (auto simp: lookup_def update_conv')

lemma writeAt_end: "writeAt (length c) bs c = c @ bs"
  by (simp add: writeAt_def)

lemma writeAt_patch:
  "length b = length b0 \<Longrightarrow> writeAt (length a) b (a @ b0 @ r) = a @ b @ r"
  by (simp add: writeAt_def)

lemma write_append:
  "p \<noteq> [] \<Longrightarrow> n = length c \<Longrightarrow>
   ofile_Write \<lparr>opath = p, opos = n\<rparr> bs (AList.update p (File c m) t) =
     Inr (\<lparr>opath = p, opos = length c + length bs\<rparr>, AList.update p (File (c @ bs) m) t)"
  by (simp add: ofile_Write_def lookup_update writeAt_end)

lemma length_PutUint64: "length (LittleEndian_PutUint64 v) = 8"
  by (simp add: LittleEndian_PutUint64_def length_le_bytes)

lemma openFile_result:
  "os_OpenFile p perm t = Inr (f, t1) \<Longrightarrow>
     p \<noteq> [] \<and> f = \<lparr>opath = p, opos = 0\<rparr> \<and> (\<exists>m. t1 = AList.update p (File [] m) t)"
  by (auto simp: os_OpenFile_def split: if_splits option.splits node.splits)

lemma createFinish_ok:
  assumes "createFinish e \<lparr>opath = p, opos = n\<rparr> offs
             (AList.update p (File (a @ sizePlaceholder @ pl) m) t) = (Ok (), t')"
    and "p \<noteq> []" and "\<not> io_fault e Backpatch"
    and "offs = length a + 8" and "n = offs + length pl"
  shows "t' = AList.update p (File (a @ LittleEndian_PutUint64 (word_of_nat (length pl)) @ pl) 493) t"
proof -
  have w: "ofile_Write \<lparr>opath = p, opos = length a\<rparr> (LittleEndian_PutUint64 (word_of_nat (length pl)))
             (AList.update p (File (a @ sizePlaceholder @ pl) m) t)
           = Inr (\<lparr>opath = p, opos = length a + 8\<rparr>,
                  AList.update p (File (a @ LittleEndian_PutUint64 (word_of_nat (length pl)) @ pl) m) t)"
    using assms(2)
    by (simp add: ofile_Write_def lookup_update writeAt_patch length_PutUint64 length_sizePlaceholder)
  show ?thesis
    using assms
    by (simp add: createFinish_def Let_def w ofile_Chmod_def lookup_update split: if_splits)
qed

lemma createPayload_ok:
  assumes "createPayload e \<lparr>opath = p, opos = n\<rparr> files cd
             (AList.update p (File (a @ sizePlaceholder) m) t) = (Ok (), t')"
    and "p \<noteq> []" and "\<not> io_fault e Backpatch" and "n = length a + 8"
  shows "\<exists>entries.
           archiveFiles (AList.update p (File (a @ sizePlaceholder) m) t) cd files = Ok entries \<and>
           t' = AList.update p
                  (File (a @ LittleEndian_PutUint64 (word_of_nat (length (encode e entries)))
                          @ encode e entries) 493) t"
proof -
  let ?t = "AList.update p (File (a @ sizePlaceholder) m) t"
  obtain entries where en: "archiveFiles ?t cd files = Ok entries"
    using assms(1) by (auto simp: createPayload_def Let_def split: if_splits outcome.splits)
  let ?pl = "encode e entries"
  have w: "ofile_Write \<lparr>opath = p, opos = n\<rparr> ?pl ?t =
             Inr (\<lparr>opath = p, opos = length (a @ sizePlaceholder) + length ?pl\<rparr>,
                  AList.update p (File ((a @ sizePlaceholder) @ ?pl) m) t)"
    by (rule write_append[OF assms(2)]) (simp add: assms(4) length_sizePlaceholder)
  have "createFinish e \<lparr>opath = p, opos = n + length ?pl\<rparr> n
          (AList.update p (File (a @ sizePlaceholder @ ?pl) m) t) = (Ok (), t')"
    using assms(1) en w
    by (simp add: createPayload_def Let_def assms(4) length_sizePlaceholder split: if_splits)
  from createFinish_ok[OF this assms(2,3,4) refl] en show ?thesis by blast
qed

lemma createHeader_ok:
  assumes "createHeader e self \<lparr>opath = p, opos = 0\<rparr> files cd (AList.update p (File [] m) t) = (Ok (), t')"
    and "p \<noteq> []" and "\<not> io_fault e Backpatch" and "bad self = None"
  shows "\<exists>k entries t4.
           generateRandomKey e = Ok k \<and> archiveFiles t4 cd files = Ok entries \<and>
           t' = AList.update p
                  (File (drop (offset self) (content self) @ generateBoundary @ k
                          @ LittleEndian_PutUint64 (word_of_nat (length (encode e entries)))
                          @ encode e entries) 493) t"
proof -
  let ?stub = "drop (offset self) (content self)"
  have rd: "readToEnd self [] = Some ?stub" using readToEnd_all[OF assms(4), of "[]"] by simp
  note wr = write_append[OF assms(2)]
  obtain k where k: "generateRandomKey e = Ok k"
    using assms(1) by (auto simp: createHeader_def rd wr split: if_splits outcome.splits)
  have "createPayload e \<lparr>opath = p, opos = length (?stub @ generateBoundary @ k) + 8\<rparr> files cd
          (AList.update p (File ((?stub @ generateBoundary @ k) @ sizePlaceholder) m) t) = (Ok (), t')"
    using assms(1) by (simp add: createHeader_def rd wr k length_sizePlaceholder add.assoc split: if_splits)
  from createPayload_ok[OF this assms(2,3) refl] k show ?thesis by auto
qed

lemma create_layout:
  assumes "create e self ky out files cd t = (Ok (), t')"
    and "\<not> io_fault e Backpatch" and "bad self = None"
  shows "\<exists>k entries t4.
           generateRandomKey e = Ok k \<and> archiveFiles t4 cd files = Ok entries \<and>
           t' = AList.update (path_of out)
                  (File (drop (offset self) (content self) @ generateBoundary @ k
                          @ LittleEndian_PutUint64 (word_of_nat (length (encode e entries)))
                          @ encode e entries) 493) t"
proof -
  obtain f t1 where op: "os_OpenFile (path_of out) 438 t = Inr (f, t1)"
    and h: "createHeader e self f files cd t1 = (Ok (), t')"
    using assms(1) by (auto simp: create_def split: if_splits sum.splits)
  from openFile_result[OF op] obtain m where
    p: "path_of out \<noteq> []" and f: "f = \<lparr>opath = path_of out, opos = 0\<rparr>"
    and t1: "t1 = AList.update (path_of out) (File [] m) t" by blast
  from createHeader_ok[OF h[unfolded f t1] p assms(2,3)] show ?thesis .
qed

lemma create_succeeds:
  assumes "files \<noteq> []" and "\<And>s. \<not> io_fault e s" and "bad self = None"
    and "entropy e = Some r" and "path_of out = p" and "p \<noteq> []"
    and "isDir t (butlast p)" and "lookup t p = None"
    and "k = map r [0..<keyLength]"
    and "archiveFiles
           (AList.update p (File (drop (offset self) (content self) @ generateBoundary @ k @ sizePlaceholder) 438) t)
           cd files = Ok entries"
  shows "create e self ky out files cd t =
           (Ok (), AList.update p
                     (File (drop (offset self) (content self) @ generateBoundary @ k
                             @ LittleEndian_PutUint64 (word_of_nat (length (encode e entries)))
                             @ encode e entries) 493) t)"
proof -
  let ?stub = "drop (offset self) (content self)"
  let ?a = "?stub @ generateBoundary @ k"
  let ?pl = "encode e entries"
  note wr = write_append[OF assms(6)]
  have rd: "readToEnd self [] = Some ?stub" using readToEnd_all[OF assms(3), of "[]"] by simp
  have fin: "createFinish e \<lparr>opath = p, opos = length ?a + 8 + length ?pl\<rparr> (length ?a + 8)
               (AList.update p (File (?a @ sizePlaceholder @ ?pl) 438) t)
             = (Ok (), AList.update p (File (?a @ LittleEndian_PutUint64 (word_of_nat (length ?pl)) @ ?pl) 493) t)"
    using assms(2,6)
    by (simp add: createFinish_def Let_def ofile_Write_def ofile_Chmod_def lookup_update
          writeAt_patch length_PutUint64 length_sizePlaceholder del: append_assoc length_append)
  have pay: "createPayload e \<lparr>opath = p, opos = length ?a + 8\<rparr> files cd
               (AList.update p (File (?a @ sizePlaceholder) 438) t)
             = (Ok (), AList.update p (File (?a @ LittleEndian_PutUint64 (word_of_nat (length ?pl)) @ ?pl) 493) t)"
    using assms(2,10) fin
    by (simp add: createPayload_def Let_def wr length_sizePlaceholder add.assoc)
  have hdr: "createHeader e self \<lparr>opath = p, opos = 0\<rparr> files cd (AList.update p (File [] 438) t)
             = (Ok (), AList.update p (File (?a @ LittleEndian_PutUint64 (word_of_nat (length ?pl)) @ ?pl) 493) t)"
    using assms(2,4,9) pay
    by (simp add: createHeader_def rd wr generateRandomKey_def length_sizePlaceholder add.assoc)
  show ?thesis
    using assms(1,5,6,7,8) hdr by (simp add: create_def os_OpenFile_def)
qed

text \<open>
  The two halves together: what a successful build leaves is read back by the scanner as the
  key and exactly the payload, provided the appended marker is the first occurrence in the
  archive and does not straddle two blocks.
\<close>

lemma archive_reads_back:
  assumes "create e self ky out files cd t = (Ok (), t')"
    and "\<not> io_fault e Backpatch" and "bad self = None"
  shows "\<exists>k pl archive.
           archive = drop (offset self) (content self) @ generateBoundary @ k
                      @ LittleEndian_PutUint64 (word_of_nat (length pl)) @ pl
           \<and> lookup t' (path_of out) = Some (File archive 493)
           \<and> length k = keyLength
           \<and> (length pl < 2 ^ 63
                \<and> bytes_Index archive generateBoundary = Some (length (drop (offset self) (content self)))
                \<and> length (drop (offset self) (content self)) mod scanBlockSize + length generateBoundary
                     \<le> scanBlockSize
               \<longrightarrow> (\<exists>f'. parseSelf (openFile archive) = (Ok (Payload (int (length pl)) k), f')
                          \<and> limitReader_bytes f' (int (length pl)) = pl))"
proof -
  let ?stub = "drop (offset self) (content self)"
  from create_layout[OF assms] obtain k entries t4 where
    k: "generateRandomKey e = Ok k"
    and t': "t' = AList.update (path_of out)
                  (File (?stub @ generateBoundary @ k
                          @ LittleEndian_PutUint64 (word_of_nat (length (encode e entries)))
                          @ encode e entries) 493) t" by blast
  let ?pl = "encode e entries"
  let ?a = "?stub @ generateBoundary @ k @ LittleEndian_PutUint64 (word_of_nat (length ?pl)) @ ?pl"
  obtain f t1 where "os_OpenFile (path_of out) 438 t = Inr (f, t1)"
    using assms(1) by (auto simp: create_def split: if_splits sum.splits)
  then have p: "path_of out \<noteq> []" using openFile_result by blast
  have lk: "lookup t' (path_of out) = Some (File ?a 493)"
    by (simp add: t' lookup_update[OF p])
  have kl: "length k = keyLength"
    using k by (auto simp: generateRandomKey_def split: option.splits)
  have rb: "\<exists>f'. parseSelf (openFile ?a) = (Ok (Payload (int (length ?pl)) k), f')
                          \<and> limitReader_bytes f' (int (length ?pl)) = ?pl"
    if "length ?pl < 2 ^ 63" "bytes_Index ?a generateBoundary = Some (length ?stub)"
       "length ?stub mod scanBlockSize + length generateBoundary \<le> scanBlockSize"
  proof -
    have "\<exists>f'. parseSelf (openFile ?a) = (Ok (Payload (int (length ?pl)) k), f')
           \<and> offset f' = length ?stub + length generateBoundary + keyLength + 8
           \<and> limitReader_bytes f' (int (length ?pl)) = ?pl"
      by (rule parseSelf_reads_back[where stub = ?stub])
         (use kl that in \<open>simp_all add: openFile_def\<close>)
    then show ?thesis by blast
  qed
  show ?thesis
    using lk kl rb by (intro exI[of _ k] exI[of _ ?pl] exI[of _ ?a]) blast
qed

text \<open>
  Claim C10: with no input path the builder ends in \<^verbatim>\<open>die\<close> before it opens the output file;
  the file system is as it was.
\<close>

theorem C10_no_files_no_output:
  "create e self ky out [] cd t = (Fatal ''no files to archive'', t)"
  by (simp add: create_def)

lemma misaligned_key: "map (\<lambda>i. 7 :: byte) [0..<keyLength] = replicate 16 7"
  by (simp add: keyLength_def map_replicate_const)

lemma misaligned_walk:
  "archiveFiles (AList.update [''selfextract.out''] (File c m) inputTree) ''.'' [''a''] =
     Ok [\<lparr>hdr_Name = ''a'', hdr_Typeflag = TypeReg, hdr_Mode = 420, hdr_Linkname = [], body = [104, 105]\<rparr>]"
  by (simp add: archiveFiles_def walkDir_def validPath_def filepath_Clean_def joinNames_def
        path_of_def filepath_Join_def lookup_def inputTree_def archiveEntry_def)

text \<open>
  Claim C3 has two halves. The builder's half holds: a run that succeeds leaves the stub, the
  marker, the key, the length of the payload in eight little-endian bytes and the payload
  (\<open>create_layout\<close>, for a run whose patching write goes through; the source does not look at
  that write's result). The scanner's half holds when the marker lies within one read block
  (\<open>archive_reads_back\<close>) and fails on archives whose stub ends less than 64 bytes before a
  multiple of the block size, by the defect of claim C1: the build below succeeds, the archive
  it leaves is \<open>straddlingExe\<close>, its length field is 4 and four payload bytes follow, and
  \<^verbatim>\<open>parseSelf\<close> on it returns \<^verbatim>\<open>(nil, nil)\<close>, no reader at all.
\<close>

theorem C3_misaligned_archive_is_not_read_back:
  "create misalignedBuild (openFile (replicate 131040 0)) [] ''selfextract.out'' [''a''] ''.'' inputTree
     = (Ok (), AList.update [''selfextract.out''] (File straddlingExe 493) inputTree)
   \<and> LittleEndian_Uint64 (take 8 (drop (131040 + 64 + 16) straddlingExe)) = 4
   \<and> drop (131040 + 64 + 16 + 8) straddlingExe = [1, 2, 3, 4]
   \<and> fst (parseSelf (openFile straddlingExe)) = Ok NoPayload"
proof -
  have "create misalignedBuild (openFile (replicate 131040 0)) [] ''selfextract.out'' [''a''] ''.'' inputTree
     = (Ok (), AList.update [''selfextract.out'']
          (File (drop (offset (openFile (replicate 131040 0))) (content (openFile (replicate 131040 0)))
                 @ generateBoundary @ replicate 16 7
                 @ LittleEndian_PutUint64 (word_of_nat (length (encode misalignedBuild
                     [\<lparr>hdr_Name = ''a'', hdr_Typeflag = TypeReg, hdr_Mode = 420, hdr_Linkname = [], body = [104, 105]\<rparr>])))
                 @ encode misalignedBuild
                     [\<lparr>hdr_Name = ''a'', hdr_Typeflag = TypeReg, hdr_Mode = 420, hdr_Linkname = [], body = [104, 105]\<rparr>]) 493)
          inputTree)"
  proof (rule create_succeeds[where r = "\<lambda>i. 7"])
    show "[''a''] \<noteq> []" by simp
    show "\<And>s. \<not> io_fault misalignedBuild s" by (simp add: misalignedBuild_def)
    show "bad (openFile (replicate 131040 0)) = None" by (simp add: openFile_def)
    show "entropy misalignedBuild = Some (\<lambda>i. 7)" by (simp add: misalignedBuild_def)
    show "path_of ''selfextract.out'' = [''selfextract.out'']" by (simp add: path_of_def)
    show "[''selfextract.out''] \<noteq> []" by simp
    show "isDir inputTree (butlast [''selfextract.out''])" by (simp add: isDir_def lookup_def)
    show "lookup inputTree [''selfextract.out''] = None" by (simp add: lookup_def inputTree_def)
    show "replicate 16 7 = map (\<lambda>i. 7 :: byte) [0..<keyLength]" by (simp add: misaligned_key)
    show "archiveFiles (AList.update [''selfextract.out'']
            (File (drop (offset (openFile (replicate 131040 0))) (content (openFile (replicate 131040 0)))
                   @ generateBoundary @ replicate 16 7 @ sizePlaceholder) 438) inputTree) ''.'' [''a'']
          = Ok [\<lparr>hdr_Name = ''a'', hdr_Typeflag = TypeReg, hdr_Mode = 420, hdr_Linkname = [], body = [104, 105]\<rparr>]"
      by (rule misaligned_walk)
  qed
  then have c: "create misalignedBuild (openFile (replicate 131040 0)) [] ''selfextract.out'' [''a''] ''.'' inputTree
     = (Ok (), AList.update [''selfextract.out''] (File straddlingExe 493) inputTree)"
    by (simp add: misalignedBuild_def openFile_def straddlingExe_def)
  have l: "LittleEndian_Uint64 (take 8 (drop (131040 + 64 + 16) straddlingExe)) = 4"
    by (simp add: straddlingExe_def length_generateBoundary PutUint64_4 LittleEndian_Uint64_def)
  have p: "drop (131040 + 64 + 16 + 8) straddlingExe = [1, 2, 3, 4]"
    by (simp add: straddlingExe_def length_generateBoundary length_PutUint64)
  have s: "fst (parseSelf (openFile straddlingExe)) = Ok NoPayload"
    by (simp add: parseSelf_def straddling_scan)
  show ?thesis using c l p s by blast
qed

text \<open>
  Such a file is what the builder leaves when its last write fails, since the result of that
  write is not looked at: the run succeeds and the length field keeps the placeholder.
\<close>

lemma unpatched_build_succeeds:
  "create unpatchedBuild (openFile (replicate 131040 0)) [] ''selfextract.out'' [''a''] ''.'' inputTree
     = (Ok (), AList.update [''selfextract.out''] (File unpatchedStraddlingExe 493) inputTree)"
proof -
  let ?self = "openFile (replicate 131040 0)"
  let ?p = "[''selfextract.out'']"
  let ?a = "replicate 131040 (0::byte) @ generateBoundary @ replicate 16 7"
  have p: "?p \<noteq> []" by simp
  note wr = write_append[OF p]
  have env: "\<And>s. io_fault unpatchedBuild s = (s = Backpatch)"
    "entropy unpatchedBuild = Some (\<lambda>i. 7)" "\<And>es. encode unpatchedBuild es = [1, 2, 3, 4]"
    by (simp_all add: unpatchedBuild_def)
  have rd: "readToEnd ?self [] = Some (replicate 131040 0)"
    using readToEnd_all[of ?self "[]"] by (simp add: openFile_def)
  have fin: "createFinish unpatchedBuild \<lparr>opath = ?p, opos = length ?a + 8 + 4\<rparr> (length ?a + 8)
               (AList.update ?p (File (?a @ sizePlaceholder @ [1, 2, 3, 4]) 438) inputTree)
             = (Ok (), AList.update ?p (File (?a @ sizePlaceholder @ [1, 2, 3, 4]) 493) inputTree)"
    by (simp add: createFinish_def Let_def env ofile_Chmod_def lookup_update
          del: append_assoc length_append)
  have pay: "createPayload unpatchedBuild \<lparr>opath = ?p, opos = length ?a + 8\<rparr> [''a''] ''.''
               (AList.update ?p (File (?a @ sizePlaceholder) 438) inputTree)
             = (Ok (), AList.update ?p (File (?a @ sizePlaceholder @ [1, 2, 3, 4]) 493) inputTree)"
    using fin
    by (simp add: createPayload_def Let_def wr length_sizePlaceholder add.assoc misaligned_walk env)
  have hdr: "createHeader unpatchedBuild ?self \<lparr>opath = ?p, opos = 0\<rparr> [''a''] ''.''
               (AList.update ?p (File [] 438) inputTree)
             = (Ok (), AList.update ?p (File (?a @ sizePlaceholder @ [1, 2, 3, 4]) 493) inputTree)"
    using pay
    by (simp add: createHeader_def rd wr generateRandomKey_def length_sizePlaceholder add.assoc
          misaligned_key env)
  have "create unpatchedBuild ?self [] ''selfextract.out'' [''a''] ''.'' inputTree
          = (Ok (), AList.update ?p (File (?a @ sizePlaceholder @ [1, 2, 3, 4]) 493) inputTree)"
    using hdr
    by (simp add: create_def os_OpenFile_def path_of_def isDir_def lookup_def inputTree_def)
  then show ?thesis by (simp add: unpatchedStraddlingExe_def)
qed

section \<open>Facts about the mount probe\<close>

lemma lineEntries_Nil: "lineEntries [] = []"
  by (simp add: lineEntries_def)

lemma lineEntries_Cons:
  "lineEntries (l # ls) =
     (if 2 \<le> length (strings_Split CHR '' '' l)
      then (strings_Split CHR '' '' l ! 1, strings_Split CHR '' '' l ! 3) # lineEntries ls
      else lineEntries ls)"
  by (simp add: lineEntries_def)

lemma length_withSeparator: "length mp \<le> length (withSeparator mp)" "0 < length (withSeparator mp)"
  by (auto simp: withSeparator_def strings_HasSuffix_slash_def)

lemma match_length:
  "mountMatches path e \<Longrightarrow> length (fst e) \<le> length path"
  using length_withSeparator(1)[of "fst e"]
  by (auto simp: mountMatches_def dest!: prefix_length_le)

lemma match_vs_exact:
  "mountMatches path e' \<Longrightarrow> fst e = path \<Longrightarrow> length (withSeparator (fst e')) \<le> length (withSeparator (fst e))"
  using length_withSeparator(1)[of path]
  by (auto simp: mountMatches_def dest!: prefix_length_le)

lemma nothingBetter_Cons:
  "nothingBetter path (e # es) k \<longleftrightarrow>
     (mountMatches path e \<longrightarrow> fst e \<noteq> path \<and> length (withSeparator (fst e)) \<le> k) \<and> nothingBetter path es k"
  by (auto simp: nothingBetter_def)

lemma selected_here:
  assumes "mountMatches path e" "fst e = path \<or> k < length (withSeparator (fst e))"
    and "fst e = path \<or> nothingBetter path es (length (withSeparator (fst e)))"
  shows "selected path (e # es) k (hasNoexec (snd e))"
  unfolding selected_def
proof (rule bexI[of _ e], intro conjI ballI impI)
  fix e' assume e': "e' \<in> set (e # es)" "mountMatches path e'"
  show "length (withSeparator (fst e')) \<le> length (withSeparator (fst e))"
  proof (cases "fst e = path")
    case True
    then show ?thesis by (rule match_vs_exact[OF e'(2)])
  next
    case False
    then have "nothingBetter path es (length (withSeparator (fst e)))" using assms(3) by simp
    then show ?thesis using e' by (auto simp: nothingBetter_def)
  qed
qed (use assms in auto)

lemma selected_later:
  assumes "selected path es k' n" and "k \<le> k'"
    and "mountMatches path e \<longrightarrow> length (withSeparator (fst e)) \<le> k'"
  shows "selected path (e # es) k n"
proof -
  from assms(1) obtain x where x: "x \<in> set es" "mountMatches path x" "n = hasNoexec (snd x)"
    "fst x = path \<or> k' < length (withSeparator (fst x))"
    "\<forall>e' \<in> set es. mountMatches path e' \<longrightarrow> length (withSeparator (fst e')) \<le> length (withSeparator (fst x))"
    by (auto simp: selected_def)
  have "mountMatches path e \<longrightarrow> length (withSeparator (fst e)) \<le> length (withSeparator (fst x))"
  proof
    assume m: "mountMatches path e"
    show "length (withSeparator (fst e)) \<le> length (withSeparator (fst x))"
    proof (cases "fst x = path")
      case True
      then show ?thesis by (rule match_vs_exact[OF m])
    next
      case False
      then show ?thesis using x(4) assms(3) m by simp
    qed
  qed
  then show ?thesis
    unfolding selected_def using x assms(2) by (intro bexI[of _ x]) auto
qed

lemma selected_skip:
  "selected path es k n \<Longrightarrow> \<not> mountMatches path e \<Longrightarrow> selected path (e # es) k n"
  by (rule selected_later[where k' = k]) auto

lemma mountLoop_blank:
  "length (strings_Split CHR '' '' l) < 2 \<Longrightarrow> mountLoop (l # ls) path (mntp, ne) = mountLoop ls path (mntp, ne)"
  by (simp add: Let_def)

lemma mountLoop_entry:
  "4 \<le> length (strings_Split CHR '' '' l) \<Longrightarrow>
   mountLoop (l # ls) path (mntp, ne) =
     (if length (strings_Split CHR '' '' l ! 1) > length path then mountLoop ls path (mntp, ne)
      else if strings_Split CHR '' '' l ! 1 = path
        then Ok (strings_Split CHR '' '' l ! 1, hasNoexec (strings_Split CHR '' '' l ! 3))
      else if prefix (withSeparator (strings_Split CHR '' '' l ! 1)) path
              \<and> length mntp < length (withSeparator (strings_Split CHR '' '' l ! 1))
        then mountLoop ls path (withSeparator (strings_Split CHR '' '' l ! 1), hasNoexec (strings_Split CHR '' '' l ! 3))
      else mountLoop ls path (mntp, ne))"
  by (simp add: Let_def withSeparator_def)

lemma mountLoop_spec:
  assumes "list_all (\<lambda>fields. length fields < 2 \<or> 4 \<le> length fields) (map (strings_Split CHR '' '') ls)"
  shows "\<exists>m n. mountLoop ls path (mntp, ne) = Ok (m, n) \<and>
           ((n = ne \<and> m = mntp \<and> nothingBetter path (lineEntries ls) (length mntp))
            \<or> selected path (lineEntries ls) (length mntp) n)"
  using assms
proof (induction ls arbitrary: mntp ne)
  case Nil
  then show ?case by (simp add: lineEntries_Nil nothingBetter_def)
next
  case (Cons l ls)
  let ?f = "strings_Split CHR '' '' l"
  have wf: "list_all (\<lambda>fields. length fields < 2 \<or> 4 \<le> length fields) (map (strings_Split CHR '' '') ls)"
    and wl: "length ?f < 2 \<or> 4 \<le> length ?f"
    using Cons.prems by simp_all
  note IH = Cons.IH[OF wf]
  show ?case
  proof (cases "length ?f < 2")
    case True
    then show ?thesis using IH[of mntp ne] by (simp add: lineEntries_Cons mountLoop_blank del: mountLoop.simps)
  next
    case False
    then have four: "4 \<le> length ?f" using wl by simp
    let ?mp = "?f ! 1" and ?op = "?f ! 3"
    let ?e = "(?mp, ?op)"
    have ents: "lineEntries (l # ls) = ?e # lineEntries ls"
      using four by (simp add: lineEntries_Cons)
    have ws: "(if \<not> strings_HasSuffix_slash ?mp then ?mp @ ''/'' else ?mp) = withSeparator ?mp"
      by (simp add: withSeparator_def)
    show ?thesis
    proof (cases "length ?mp > length path")
      case True
      then have nm: "\<not> mountMatches path ?e" using match_length[of path ?e] by auto
      have step: "mountLoop (l # ls) path (mntp, ne) = mountLoop ls path (mntp, ne)"
        using four True by (simp add: mountLoop_entry del: mountLoop.simps)
      from IH[of mntp ne] show ?thesis
        unfolding step ents using nm by (auto simp: nothingBetter_Cons intro: selected_skip)
    next
      case short: False
      show ?thesis
      proof (cases "?mp = path")
        case True
        have step: "mountLoop (l # ls) path (mntp, ne) = Ok (?mp, hasNoexec ?op)"
          using four short True by (simp add: mountLoop_entry del: mountLoop.simps)
        have "selected path (?e # lineEntries ls) (length mntp) (hasNoexec (snd ?e))"
          by (rule selected_here) (use True in \<open>simp_all add: mountMatches_def\<close>)
        then show ?thesis unfolding step ents by simp
      next
        case ne_path: False
        show ?thesis
        proof (cases "prefix (withSeparator ?mp) path")
          case pre: True
          then have m: "mountMatches path ?e" by (simp add: mountMatches_def)
          show ?thesis
          proof (cases "length mntp < length (withSeparator ?mp)")
            case True
            have step: "mountLoop (l # ls) path (mntp, ne) = mountLoop ls path (withSeparator ?mp, hasNoexec ?op)"
              using four short ne_path pre True by (simp add: mountLoop_entry del: mountLoop.simps)
            from IH[of "withSeparator ?mp" "hasNoexec ?op"] obtain m' n' where
              r: "mountLoop ls path (withSeparator ?mp, hasNoexec ?op) = Ok (m', n')"
              and d: "(n' = hasNoexec ?op \<and> m' = withSeparator ?mp \<and> nothingBetter path (lineEntries ls) (length (withSeparator ?mp)))
                    \<or> selected path (lineEntries ls) (length (withSeparator ?mp)) n'" by blast
            from d have "selected path (?e # lineEntries ls) (length mntp) n'"
            proof
              assume a: "n' = hasNoexec ?op \<and> m' = withSeparator ?mp \<and> nothingBetter path (lineEntries ls) (length (withSeparator ?mp))"
              have "selected path (?e # lineEntries ls) (length mntp) (hasNoexec (snd ?e))"
                by (rule selected_here) (use m True a in simp_all)
              then show ?thesis using a by simp
            next
              assume "selected path (lineEntries ls) (length (withSeparator ?mp)) n'"
              then show ?thesis by (rule selected_later) (use True in simp_all)
            qed
            then show ?thesis unfolding step ents using r by simp
          next
            case False
            have step: "mountLoop (l # ls) path (mntp, ne) = mountLoop ls path (mntp, ne)"
              using four short ne_path pre False by (simp add: mountLoop_entry del: mountLoop.simps)
            from IH[of mntp ne] obtain m' n' where
              r: "mountLoop ls path (mntp, ne) = Ok (m', n')"
              and d: "(n' = ne \<and> m' = mntp \<and> nothingBetter path (lineEntries ls) (length mntp))
                    \<or> selected path (lineEntries ls) (length mntp) n'" by blast
            from d have "(n' = ne \<and> m' = mntp \<and> nothingBetter path (?e # lineEntries ls) (length mntp))
                    \<or> selected path (?e # lineEntries ls) (length mntp) n'"
            proof
              assume "n' = ne \<and> m' = mntp \<and> nothingBetter path (lineEntries ls) (length mntp)"
              then show ?thesis using False ne_path by (simp add: nothingBetter_Cons)
            next
              assume "selected path (lineEntries ls) (length mntp) n'"
              then have "selected path (?e # lineEntries ls) (length mntp) n'"
                by (rule selected_later) (use False in simp_all)
              then show ?thesis by simp
            qed
            then show ?thesis unfolding step ents using r by simp
          qed
        next
          case False
          then have nm: "\<not> mountMatches path ?e" using ne_path by (simp add: mountMatches_def)
          have step: "mountLoop (l # ls) path (mntp, ne) = mountLoop ls path (mntp, ne)"
            using four short ne_path False by (simp add: mountLoop_entry del: mountLoop.simps)
          from IH[of mntp ne] show ?thesis
            unfolding step ents using nm by (auto simp: nothingBetter_Cons intro: selected_skip)
        qed
      qed
    qed
  qed
qed

lemma mountEntries_lines: "mountEntries data = lineEntries (strings_Split (CHR 0x0A) data)"
  by (simp add: mountEntries_def lineEntries_def)

lemma canonical_length:
  "canonicalMountPoint a \<Longrightarrow> canonicalMountPoint b \<Longrightarrow>
   length (withSeparator a) \<le> length (withSeparator b) \<Longrightarrow> length a \<le> length b"
  by (cases a; cases b)
     (auto simp: canonicalMountPoint_def withSeparator_def strings_HasSuffix_slash_def
           split: if_splits)

lemma overlapping_lines:
  "strings_Split (CHR 0x0A) overlappingMounts =
     [''rootfs / ext4 rw,relatime 0 0'', ''tmpfs /tmp tmpfs rw,nosuid,noexec 0 0'', '''']"
  by (simp add: overlappingMounts_def)

lemma overlapping_fields:
  "strings_Split CHR '' '' ''rootfs / ext4 rw,relatime 0 0'' = [''rootfs'', ''/'', ''ext4'', ''rw,relatime'', ''0'', ''0'']"
  "strings_Split CHR '' '' ''tmpfs /tmp tmpfs rw,nosuid,noexec 0 0'' = [''tmpfs'', ''/tmp'', ''tmpfs'', ''rw,nosuid,noexec'', ''0'', ''0'']"
  "strings_Split CHR '' '' '''' = ['''']"
  by simp_all

lemma overlapping_options:
  "hasNoexec ''rw,relatime'' = False" "hasNoexec ''rw,nosuid,noexec'' = True"
  by (simp_all add: hasNoexec_def)

lemma overlapping_tmp:
  "mountLoop (strings_Split (CHR 0x0A) overlappingMounts) ''/tmp/sub/dir'' ([], False) = Ok (''/tmp/'', True)"
  by (simp add: overlapping_lines overlapping_fields overlapping_options Let_def
        strings_HasSuffix_slash_def)

lemma overlapping_other:
  "mountLoop (strings_Split (CHR 0x0A) overlappingMounts) ''/other'' ([], False) = Ok (''/'', False)"
  by (simp add: overlapping_lines overlapping_fields overlapping_options Let_def
        strings_HasSuffix_slash_def)

lemma overlapping_complete: "completeLines overlappingMounts"
  by (simp add: completeLines_def overlapping_lines overlapping_fields)

lemma overlapping_canonical: "canonicalMounts overlappingMounts"
  by (simp add: canonicalMounts_def mountEntries_def overlapping_lines overlapping_fields
        canonicalMountPoint_def)

text \<open>
  Outside that format the loop is not total: a line of two or three fields passes the test
  \<^verbatim>\<open>len(fields) < 2\<close> and the read of \<^verbatim>\<open>fields[3]\<close> panics. The kernel writes six fields a line.
\<close>

lemma short_line_panics:
  "checkExecutable (Mounts ''tmpfs /tmp'') path = Panic ''index out of range [3]''"
  by (simp add: checkExecutable_def)

text \<open>
  Claim C6. For a table whose lines are complete, the probe returns, and what it reports is
  decided by a matching entry that no other matching entry exceeds in the length of the mount
  point with its separator, nor, when the mount points are canonical, in the length of the
  mount point as written: executable exactly when that entry's options lack \<^verbatim>\<open>noexec\<close>. (When
  nothing matches it reports executable.) On the table with \<^verbatim>\<open>/\<close> and a \<^verbatim>\<open>noexec\<close> \<^verbatim>\<open>/tmp\<close>,
  the loop ends on \<^verbatim>\<open>/tmp/\<close> for \<^verbatim>\<open>/tmp/sub/dir\<close>, not executable, and on \<^verbatim>\<open>/\<close> for \<^verbatim>\<open>/other\<close>,
  executable. A table that cannot be opened or read gives not executable.
\<close>

theorem C6_mount_probe_longest_match:
  "(completeLines data \<longrightarrow>
      (\<exists>r. checkExecutable (Mounts data) path = Ok r
         \<and> ((\<forall>e \<in> set (mountEntries data). \<not> mountMatches path e) \<longrightarrow> r)
         \<and> ((\<exists>e \<in> set (mountEntries data). mountMatches path e) \<longrightarrow>
              (\<exists>e \<in> set (mountEntries data).
                  mountMatches path e
                  \<and> (\<forall>e' \<in> set (mountEntries data).
                        mountMatches path e' \<longrightarrow>
                          length (withSeparator (fst e')) \<le> length (withSeparator (fst e)))
                  \<and> (canonicalMounts data \<longrightarrow>
                        (\<forall>e' \<in> set (mountEntries data).
                           mountMatches path e' \<longrightarrow> length (fst e') \<le> length (fst e)))
                  \<and> r = (\<not> hasNoexec (snd e))))))
   \<and> mountLoop (strings_Split (CHR 0x0A) overlappingMounts) ''/tmp/sub/dir'' ([], False) = Ok (''/tmp/'', True)
   \<and> checkExecutable (Mounts overlappingMounts) ''/tmp/sub/dir'' = Ok False
   \<and> mountLoop (strings_Split (CHR 0x0A) overlappingMounts) ''/other'' ([], False) = Ok (''/'', False)
   \<and> checkExecutable (Mounts overlappingMounts) ''/other'' = Ok True
   \<and> checkExecutable OpenFails path = Ok False
   \<and> checkExecutable ReadFails path = Ok False"
proof -
  have general: "\<exists>r. checkExecutable (Mounts data) path = Ok r
         \<and> ((\<forall>e \<in> set (mountEntries data). \<not> mountMatches path e) \<longrightarrow> r)
         \<and> ((\<exists>e \<in> set (mountEntries data). mountMatches path e) \<longrightarrow>
              (\<exists>e \<in> set (mountEntries data).
                  mountMatches path e
                  \<and> (\<forall>e' \<in> set (mountEntries data).
                        mountMatches path e' \<longrightarrow>
                          length (withSeparator (fst e')) \<le> length (withSeparator (fst e)))
                  \<and> (canonicalMounts data \<longrightarrow>
                        (\<forall>e' \<in> set (mountEntries data).
                           mountMatches path e' \<longrightarrow> length (fst e') \<le> length (fst e)))
                  \<and> r = (\<not> hasNoexec (snd e))))" if wf: "completeLines data"
  proof -
    let ?ls = "strings_Split (CHR 0x0A) data"
    let ?es = "mountEntries data"
    have fields: "list_all (\<lambda>fields. length fields < 2 \<or> 4 \<le> length fields) (map (strings_Split CHR '' '') ?ls)"
      using wf by (simp add: completeLines_def)
    from mountLoop_spec[OF fields, of path "[]" False] obtain m n where
      run: "mountLoop ?ls path ([], False) = Ok (m, n)"
      and d: "(n = False \<and> m = [] \<and> nothingBetter path ?es (length ([]::string))) \<or> selected path ?es (length ([]::string)) n"
      by (auto simp: mountEntries_lines)
    have res: "checkExecutable (Mounts data) path = Ok (\<not> n)"
      by (simp add: checkExecutable_def run)
    from d show ?thesis
    proof
      assume a: "n = False \<and> m = [] \<and> nothingBetter path ?es (length ([]::string))"
      then have "\<forall>e \<in> set ?es. \<not> mountMatches path e"
        using length_withSeparator(2) by (fastforce simp: nothingBetter_def)
      then show ?thesis using res a by auto
    next
      assume "selected path ?es (length ([]::string)) n"
      then obtain e where e: "e \<in> set ?es" "mountMatches path e" "n = hasNoexec (snd e)"
        "\<forall>e' \<in> set ?es. mountMatches path e' \<longrightarrow> length (withSeparator (fst e')) \<le> length (withSeparator (fst e))"
        by (auto simp: selected_def)
      have "\<forall>e' \<in> set ?es. mountMatches path e' \<longrightarrow> length (fst e') \<le> length (fst e)"
        if canon: "canonicalMounts data"
      proof (intro ballI impI)
        fix e' assume e': "e' \<in> set ?es" "mountMatches path e'"
        have c: "canonicalMountPoint (fst e')" "canonicalMountPoint (fst e)"
          using canon e' e(1) by (auto simp: canonicalMounts_def list_all_iff)
        show "length (fst e') \<le> length (fst e)"
          using canonical_length[OF c] e(4) e' by blast
      qed
      then show ?thesis using res e by auto
    qed
  qed
  have tmp: "checkExecutable (Mounts overlappingMounts) ''/tmp/sub/dir'' = Ok False"
    by (simp add: checkExecutable_def overlapping_tmp)
  have other: "checkExecutable (Mounts overlappingMounts) ''/other'' = Ok True"
    by (simp add: checkExecutable_def overlapping_other)
  have closed: "checkExecutable OpenFails path = Ok False" "checkExecutable ReadFails path = Ok False"
    by (simp_all add: checkExecutable_def)
  show ?thesis using general overlapping_tmp tmp overlapping_other other closed by blast
qed

text \<open>
  The general part at the table of the example: its lines are complete, its mount points
  canonical, and \<^verbatim>\<open>/tmp/sub/dir\<close> has a match.
\<close>

theorem C6_mount_probe_longest_match_witness:
  "completeLines overlappingMounts
   \<and> canonicalMounts overlappingMounts
   \<and> (\<exists>e \<in> set (mountEntries overlappingMounts). mountMatches ''/tmp/sub/dir'' e)
   \<and> (\<exists>r. checkExecutable (Mounts overlappingMounts) ''/tmp/sub/dir'' = Ok r
         \<and> (\<exists>e \<in> set (mountEntries overlappingMounts).
                  mountMatches ''/tmp/sub/dir'' e
                  \<and> (\<forall>e' \<in> set (mountEntries overlappingMounts).
                        mountMatches ''/tmp/sub/dir'' e' \<longrightarrow> length (fst e') \<le> length (fst e))
                  \<and> r = (\<not> hasNoexec (snd e))))"
proof -
  have m: "\<exists>e \<in> set (mountEntries overlappingMounts). mountMatches ''/tmp/sub/dir'' e"
    by (simp add: mountEntries_def overlapping_lines overlapping_fields mountMatches_def
          withSeparator_def strings_HasSuffix_slash_def)
  show ?thesis
    using C6_mount_probe_longest_match[of overlappingMounts "''/tmp/sub/dir''"]
      overlapping_complete overlapping_canonical m
    by blast
qed

section \<open>Facts about the extraction directory and the engine\<close>

lemma string_of_bytes_of_string: "string_of_bytes (bytes_of_string s) = s"
proof -
  have "char_of (unat (word_of_nat (of_char c :: nat) :: byte)) = c" for c :: char
  proof -
    have "(of_char c :: nat) < 256" by simp
    then have "unat (word_of_nat (of_char c :: nat) :: byte) = of_char c"
      by (simp add: unat_of_nat)
    then show ?thesis by simp
  qed
  then show ?thesis by (simp add: string_of_bytes_def bytes_of_string_def o_def)
qed

lemma demo_paths:
  "path_of ''/app'' = [''app'']"
  "keyFilePath ''/app'' = [''app'', ''.selfextract.key'']"
  "path_of (filepath_Join ''/app'' ''selfextract_cmdline'') = [''app'', ''selfextract_cmdline'']"
  "targetPath ''/app'' ''selfextract_cmdline'' = [''app'', ''selfextract_cmdline'']"
  "cleanIsDot ''selfextract_cmdline'' = False"
  by (simp_all add: path_of_def keyFilePath_def filepath_Join_def keyFileName_def targetPath_def
        cleanElements_def cleanIsDot_def)

lemma demo_prepare:
  "prepareExtractDir demoEnv demoStart [] = (Ok (demoStart\<lparr>extractDir := ''/app''\<rparr>), [([''app''], Dir 493)])"
  by (simp add: prepareExtractDir_def demoEnv_def demo_paths lookup_def os_MkdirAll_def)

lemma demo_extract:
  "se_extract demoEnv (demoStart\<lparr>extractDir := ''/app''\<rparr>) [([''app''], Dir 493)] = (Ok (), demoTree)"
  by (simp add: se_extract_def writePayload_def demoEnv_def demoStart_def demoCmdline_def demo_paths
        createFile_def os_MkdirAll_def lookup_def os_Create_def os_OpenFile_def isDir_def
        ofile_Write_def ofile_Chmod_def writeAt_def createKeyFile_def demoTree_def)

lemma demo_startup:
  "startup demoEnv (demoStart\<lparr>extractDir := ''/app''\<rparr>) demoTree = Ok 7"
  by (simp add: startup_def runCmdline_def demoEnv_def demoStart_def demo_paths demoTree_def
        isTruthy_def os_Stat_def os_Open_def lookup_def io_ReadAll_def string_of_bytes_of_string
        strings_TrimSpace_def isSpace_def strings_ReplaceAll_def shlex_Split_def shlexSpace_def)

lemma strings_Split_nonempty: "strings_Split c s \<noteq> []"
  by (induction s) (auto split: list.splits)

lemma strings_Split_append:
  "strings_Split c (a @ c # b) = strings_Split c a @ strings_Split c b"
proof (induction a)
  case Nil
  then show ?case by simp
next
  case (Cons x a)
  obtain r rs where s: "strings_Split c a = r # rs"
    using strings_Split_nonempty[of c a] by (cases "strings_Split c a") auto
  show ?case using Cons s by simp
qed

lemma resolve_append: "resolve (xs @ ys) st = resolve ys (resolve xs st)"
  by (induction xs arbitrary: st) auto

lemma path_of_Join:
  "path_of (filepath_Join a b) = resolve (strings_Split CHR ''/'' b) (path_of a)"
  by (simp add: path_of_def filepath_Join_def strings_Split_append resolve_append)

lemma keyFilePath_eq: "keyFilePath dir = path_of dir @ [keyFileName]"
  by (simp add: keyFilePath_def path_of_Join) (simp add: keyFileName_def)

lemma keyFilePath_props:
  "keyFilePath dir \<noteq> []" "butlast (keyFilePath dir) = path_of dir" "keyFilePath dir \<noteq> path_of dir"
  "\<not> prefix (keyFilePath dir) (path_of dir)"
  by (simp_all add: keyFilePath_eq)






lemma prepare_hit:
  assumes "env_Dir e \<noteq> []" "cacheHit (key se) (env_Dir e) t"
  shows "prepareExtractDir e se t = (Ok (se\<lparr>extractDir := env_Dir e, skipExtract := True\<rparr>), t)"
  using assms
  by (auto simp: prepareExtractDir_def cacheHit_def isDir_def Let_def
           split: option.splits node.splits sum.splits)

lemma prepare_shape:
  assumes "env_Dir e \<noteq> []" "\<not> skipExtract se" "prepareExtractDir e se t = (Ok se1, t1)"
  shows "(skipExtract se1 \<longrightarrow> t1 = t \<and> cacheHit (key se) (env_Dir e) t
            \<and> se1 = se\<lparr>extractDir := env_Dir e, skipExtract := True\<rparr>)
       \<and> (\<not> skipExtract se1 \<longrightarrow> se1 = se\<lparr>extractDir := env_Dir e\<rparr>)"
  using assms
  by (auto simp: prepareExtractDir_def cacheHit_def isDir_def Let_def
           split: option.splits node.splits sum.splits if_splits)

lemma hexDigit_not_space: "\<not> isSpace (hexDigit n)"
proof -
  have "hexDigit n \<in> set ''0123456789abcdef''"
    unfolding hexDigit_def by (rule nth_mem) simp
  then show ?thesis by (auto simp: isSpace_def)
qed

lemma hex_no_space: "c \<in> set (hex_EncodeToString bs) \<Longrightarrow> \<not> isSpace c"
  by (auto simp: hex_EncodeToString_def hexDigit_not_space)

lemma dropWhile_none: "(\<And>c. c \<in> set s \<Longrightarrow> \<not> P c) \<Longrightarrow> dropWhile P s = s"
  by (cases s) auto

lemma TrimSpace_hex: "strings_TrimSpace (hex_EncodeToString bs) = hex_EncodeToString bs"
proof -
  have "dropWhile isSpace (hex_EncodeToString bs) = hex_EncodeToString bs"
    by (rule dropWhile_none) (rule hex_no_space)
  moreover have "dropWhile isSpace (rev (hex_EncodeToString bs)) = rev (hex_EncodeToString bs)"
    by (rule dropWhile_none) (simp add: hex_no_space)
  ultimately show ?thesis by (simp add: strings_TrimSpace_def)
qed

lemma update_member: "(p, v) \<in> set (AList.update p v t)"
  by (induction t) auto

lemma createKeyFile_hit:
  assumes "createKeyFile se t = (Ok (), t2)"
  shows "cacheHit (key se) (extractDir se) t2"
proof -
  let ?kp = "keyFilePath (extractDir se)"
  let ?d = "path_of (extractDir se)"
  let ?hex = "bytes_of_string (hex_EncodeToString (key se))"
  obtain f ta where cr: "os_Create ?kp t = Inr (f, ta)"
    using assms by (auto simp: createKeyFile_def split: sum.splits)
  from openFile_result[OF cr[unfolded os_Create_def]] obtain m where
    f: "f = \<lparr>opath = ?kp, opos = 0\<rparr>" and ta: "ta = AList.update ?kp (File [] m) t" by blast
  have dir: "isDir t ?d"
    using cr by (auto simp: os_Create_def os_OpenFile_def keyFilePath_props split: if_splits)
  have w: "ofile_Write f ?hex ta = Inr (\<lparr>opath = ?kp, opos = length ?hex\<rparr>, AList.update ?kp (File ?hex m) t)"
    unfolding f ta using write_append[OF keyFilePath_props(1), of 0 "[]" "extractDir se" ?hex m t] by simp
  have t2: "t2 = AList.update ?kp (File ?hex m) t"
    using assms by (simp add: createKeyFile_def cr w)
  have d2: "isDir t2 ?d"
    using dir keyFilePath_props(3)[of "extractDir se"]
    by (simp add: t2 isDir_def lookup_update keyFilePath_props(1))
  have "(?kp, File ?hex m) \<in> set t2" unfolding t2 by (rule update_member)
  then have "filter (\<lambda>(k, n). k \<noteq> [] \<and> butlast k = ?d) t2 \<noteq> []"
    by (auto simp: filter_empty_conv keyFilePath_props intro!: bexI[of _ "(?kp, File ?hex m)"])
  then have rd: "case os_ReadDir t2 ?d of Inr entries \<Rightarrow> entries \<noteq> [] | Inl err \<Rightarrow> False"
    using d2 by (auto simp: os_ReadDir_def isDir_def split: option.splits node.splits)
  have op: "os_Open t2 ?kp = Inr (File ?hex m)"
    by (simp add: os_Open_def t2 lookup_update keyFilePath_props)
  show ?thesis
    unfolding cacheHit_def using d2 rd
    by (simp add: op io_ReadAll_def string_of_bytes_of_string TrimSpace_hex)
qed

text \<open>
  Claim C4: after a run into a configured directory that succeeded, a second run of the same
  archive finds the key file with the archive's key in hex, sets \<^verbatim>\<open>skipExtract\<close> and leaves the
  file system as it is; \<^verbatim>\<open>se.extract()\<close> then returns at once, whatever the decoder would yield,
  so the writing path is not entered. The key file is what makes the second run a hit: it is
  written last, into a directory that the first run has found or made. (The model stores
  symbolic links and does not follow them; a run that would have to go through one ends in
  an error here.)
\<close>

theorem C4_second_extraction_is_skipped:
  assumes "env_Dir e \<noteq> []" and "\<not> skipExtract se"
    and "prepareExtractDir e se t = (Ok se1, t1)"
    and "se_extract e se1 t1 = (Ok (), t2)"
  shows "prepareExtractDir e se t2 = (Ok (se\<lparr>extractDir := env_Dir e, skipExtract := True\<rparr>), t2)
       \<and> (\<forall>e'. se_extract e' (se\<lparr>extractDir := env_Dir e, skipExtract := True\<rparr>) t2 = (Ok (), t2))"
proof -
  have hit: "cacheHit (key se) (env_Dir e) t2"
  proof (cases "skipExtract se1")
    case True
    then have "t1 = t" "cacheHit (key se) (env_Dir e) t"
      using prepare_shape[OF assms(1,2,3)] by simp_all
    moreover have "t2 = t1" using assms(4) True by (simp add: se_extract_def)
    ultimately show ?thesis by simp
  next
    case False
    then have se1: "se1 = se\<lparr>extractDir := env_Dir e\<rparr>"
      using prepare_shape[OF assms(1,2,3)] by simp
    from assms(4) False obtain t' where "createKeyFile se1 t' = (Ok (), t2)"
      by (auto simp: se_extract_def writePayload_def split: option.splits prod.splits outcome.splits)
    from createKeyFile_hit[OF this] show ?thesis by (simp add: se1)
  qed
  from prepare_hit[OF assms(1) hit] show ?thesis by (simp add: se_extract_def)
qed

text \<open>The theorem at the run into \<^verbatim>\<open>/app\<close>: the first run fills the directory, the second skips.\<close>

theorem C4_second_extraction_is_skipped_witness:
  "prepareExtractDir demoEnv demoStart demoTree
     = (Ok (demoStart\<lparr>extractDir := ''/app'', skipExtract := True\<rparr>), demoTree)
   \<and> se_extract demoEnv (demoStart\<lparr>extractDir := ''/app'', skipExtract := True\<rparr>) demoTree = (Ok (), demoTree)"
proof -
  have d: "env_Dir demoEnv = ''/app''" by (simp add: demoEnv_def)
  have "env_Dir demoEnv \<noteq> []" "\<not> skipExtract demoStart"
    by (simp_all add: demoEnv_def demoStart_def)
  from C4_second_extraction_is_skipped[OF this demo_prepare demo_extract] show ?thesis
    by (simp add: d)
qed





section \<open>Facts about the lifecycle controller\<close>

text \<open>
  Claim C9 says the argument vector is never empty where \<^verbatim>\<open>args[0]\<close> is read. It is empty when
  the command line file tokenizes to nothing (an empty file, or a comment alone) and the
  invocation has no arguments of its own: nothing in \<^verbatim>\<open>runCmdline\<close> tests for it, and the index
  panics.
\<close>

theorem C9_empty_command_line_panics:
  "runCmdline (e\<lparr>os_Args := [prog]\<rparr>) se [([''app'', ''selfextract_cmdline''], File [] m)]
       [''app'', ''selfextract_cmdline'']
     = Panic ''index out of range [0] with length 0''
   \<and> runCmdline (e\<lparr>os_Args := [prog]\<rparr>) se
       [([''app'', ''selfextract_cmdline''], File (bytes_of_string (''# nothing to run'' @ [CHR 0x0A])) m)]
       [''app'', ''selfextract_cmdline'']
     = Panic ''index out of range [0] with length 0''"
proof -
  have empty: "string_of_bytes [] = []" by (simp add: string_of_bytes_def)
  have "runCmdline (e\<lparr>os_Args := [prog]\<rparr>) se [([''app'', ''selfextract_cmdline''], File [] m)]
       [''app'', ''selfextract_cmdline'']
     = Panic ''index out of range [0] with length 0''"
    by (simp add: runCmdline_def os_Open_def lookup_def io_ReadAll_def empty
        strings_TrimSpace_def strings_ReplaceAll_def shlex_Split_def)
  moreover have "runCmdline (e\<lparr>os_Args := [prog]\<rparr>) se
       [([''app'', ''selfextract_cmdline''], File (bytes_of_string (''# nothing to run'' @ [CHR 0x0A])) m)]
       [''app'', ''selfextract_cmdline'']
     = Panic ''index out of range [0] with length 0''"
    by (simp add: runCmdline_def os_Open_def lookup_def io_ReadAll_def string_of_bytes_of_string
        strings_TrimSpace_def isSpace_def strings_ReplaceAll_def shlex_Split_def shlexSpace_def)
  ultimately show ?thesis by simp
qed



text \<open>
  What the user of the archive of claims C1 and C3 sees: run without arguments, it takes itself
  for the bare builder and ends with "no files to archive".
\<close>

lemma misaligned_archive_runs_as_builder:
  "main re be r (openFile straddlingExe) createName changeDir [] t = (1, t)"
  by (simp add: main_def parseSelf_def straddling_scan create_def)


end

